theory Spec2Isabelle
  imports Complex_Main "HOL-Library.Word" "HOL-Library.List_Lexorder" "HOL-Library.Multiset"
    "HOL-Library.Log_Nat"
begin

section \<open>Strings\<close>

text \<open>
  A JavaScript string is a sequence of UTF-16 code units, and \<open>.length\<close> counts code
  units. The model keeps that: a string is the list of its code units as natural numbers.
  \<open>js\<close> writes an ASCII literal.
\<close>

type_synonym utf16 = "nat list"

definition js :: "string \<Rightarrow> utf16" where
  "js s = map of_char s"

text \<open>
  \<open>\s\<close> in a regular expression and \<open>String.prototype.trim\<close> use the same class:
  WhiteSpace and LineTerminator of ECMAScript.
\<close>

definition is_space :: "nat \<Rightarrow> bool" where
  "is_space c \<longleftrightarrow>
     c = 9 \<or> c = 10 \<or> c = 11 \<or> c = 12 \<or> c = 13 \<or> c = 32 \<or> c = 160 \<or> c = 5760 \<or>
     (8192 \<le> c \<and> c \<le> 8202) \<or> c = 8232 \<or> c = 8233 \<or> c = 8239 \<or> c = 8287 \<or>
     c = 12288 \<or> c = 65279"

definition trim :: "utf16 \<Rightarrow> utf16" where
  "trim s = rev (dropWhile is_space (rev (dropWhile is_space s)))"

text \<open>
  Case folding. A regular expression with flag \<open>i\<close> (and without flag \<open>u\<close>) compares
  code units after mapping each to its upper-case form, where that is one code unit,
  and never maps a code unit of 128 or more onto one below 128. \<open>canon\<close> is that map
  on the code units up to U+00FF: the ASCII letters, the Latin-1 letters U+00E0 to
  U+00FE without the division sign U+00F7, the micro sign U+00B5 (to U+039C) and
  U+00FF (to U+0178). The code units above U+00FF are left as they are: the patterns
  below hold ASCII code units, U+00A7, U+00F1, U+00FC and U+F8FF only, and no code
  unit above U+00FF has the upper-case form of one of these.
  \<open>toLowerCase\<close> is modelled on ASCII letters; it is applied to author names that are
  compared with the ASCII names of \<open>BOT_PATTERNS\<close>. The one code unit outside ASCII that
  lower-casing maps to an ASCII letter is the Kelvin sign U+212A (to k), and every name
  of the list with a k in it ends in bot, where the suffix patterns have decided already.
\<close>

definition canon :: "nat \<Rightarrow> nat" where
  "canon c =
     (if 97 \<le> c \<and> c \<le> 122 then c - 32
      else if 224 \<le> c \<and> c \<le> 254 \<and> c \<noteq> 247 then c - 32
      else if c = 181 then 924
      else if c = 255 then 376
      else c)"

definition toLowerCase :: "utf16 \<Rightarrow> utf16" where
  "toLowerCase s = map (\<lambda>c. if 65 \<le> c \<and> c \<le> 90 then c + 32 else c) s"

text \<open>
  The regular expressions of the source are of three shapes. \<open>/lit$/i\<close> is a suffix test,
  \<open>/^items/i\<close> a prefix test where an item is a literal code unit or \<open>\s+\<close>, and
  \<open>/^(g1|...|gn)\s/\<close> a prefix test for one of several literal glyphs followed by one
  white-space unit.
\<close>

datatype re_item = Ch nat | Spaces

fun match_start :: "re_item list \<Rightarrow> utf16 \<Rightarrow> bool" where
  "match_start [] s = True"
| "match_start (Ch c # p) [] = False"
| "match_start (Ch c # p) (x # s) = (canon x = canon c \<and> match_start p s)"
| "match_start (Spaces # p) [] = False"
| "match_start (Spaces # p) (x # s) =
     (is_space x \<and> (match_start (Spaces # p) s \<or> match_start p s))"

definition match_end :: "utf16 \<Rightarrow> utf16 \<Rightarrow> bool" where
  "match_end lit s \<longleftrightarrow>
     length lit \<le> length s \<and> map canon (drop (length s - length lit) s) = map canon lit"

definition lit :: "string \<Rightarrow> re_item list" where
  "lit s = map (\<lambda>c. Ch (of_char c)) s"

section \<open>Data model\<close>

text \<open>
  A timestamp is the string the fetch layer hands over together with the number
  \<open>new Date(s).getTime()\<close> gives for it, in milliseconds. The model covers well-formed
  timestamps only: the string parses (no \<open>NaN\<close>) and is not empty, so a timestamp that
  is present is truthy and a nullable one is an \<open>option\<close>.
\<close>

record timestamp =
  iso :: utf16
  ms :: int

datatype pr_status = Status_open | Status_merged | Status_closed

datatype review_state = State_commented | State_approved | State_changes_requested

datatype comment_type = Type_review | Type_issue | Type_general

text \<open>
  \<open>PullRequest\<close>, \<open>Review\<close> and \<open>Comment\<close> as the interfaces of the source declare them.
  Field names shared by two interfaces carry the interface as a prefix. The fields of
  \<open>PullRequest\<close> that no function below reads (labels, reviewer lists, approval count,
  url) and the optional code-context fields of \<open>Comment\<close> are left out.
\<close>

record PullRequest =
  pr_id :: int
  github_pr_number :: int
  title :: utf16
  author :: utf16
  created_at :: timestamp
  updated_at :: timestamp
  merged_at :: "timestamp option"
  status :: pr_status

record Review =
  review_id :: int
  review_pr_id :: int
  reviewer_username :: utf16
  review_state :: review_state
  submitted_at :: timestamp
  is_latest_review :: bool
  review_content :: "utf16 option"

record Comment =
  comment_id :: int
  comment_pr_id :: int
  github_comment_id :: int
  comment_author :: utf16
  content :: utf16
  comment_created_at :: timestamp
  is_resolved :: bool
  comment_type :: comment_type

section \<open>Content classifier\<close>

datatype bot_pattern = RegExp_end string | Name string

definition BOT_PATTERNS :: "bot_pattern list" where
  "BOT_PATTERNS =
    [RegExp_end ''[bot]'', RegExp_end ''bot'', RegExp_end ''-bot'',
     Name ''semanticdiff-com[bot]'', Name ''coderabbitai[bot]'', Name ''dependabot[bot]'',
     Name ''github-actions[bot]'', Name ''renovate[bot]'', Name ''codecov[bot]'',
     Name ''sonarcloud[bot]'', Name ''snyk-bot'', Name ''whitesource-bolt[bot]'',
     Name ''deepsource-autofix[bot]'', Name ''gitguardian[bot]'',
     Name ''circleci-bot'', Name ''travis-ci'', Name ''jenkins-bot'',
     Name ''azure-pipelines[bot]'',
     Name ''lgtm-com[bot]'', Name ''codeclimate[bot]'', Name ''houndci-bot'',
     Name ''vercel[bot]'', Name ''netlify[bot]'', Name ''heroku[bot]'']"

text \<open>
  The eleventh content pattern begins, in \<open>index.ts\<close>, with the four code units U+F8FF,
  U+00FC, U+00A7 and U+00F1 (63743, 252, 167, 241).
\<close>

definition AUTOMATED_CONTENT_PATTERNS :: "re_item list list" where
  "AUTOMATED_CONTENT_PATTERNS =
    [lit ''Review changes with'' @ [Spaces] @ lit ''SemanticDiff'',
     lit ''Changed Files'',
     lit ''Coverage report'',
     lit ''Build Status:'',
     lit ''Deploy Preview'',
     lit ''This pull request'',
     lit ''Automated merge'',
     lit ''**Summary** by CodeRabbit'',
     lit ''## Summary by Coderabbit'',
     lit ''## Summary by CodeRabbit'',
     [Ch 63743, Ch 252, Ch 167, Ch 241] @ lit '' This is an automated'',
     lit ''Dependency update'',
     lit ''Security update'',
     lit ''Auto-generated'',
     lit ''Automatically generated'']"

text \<open>
  The seven alternatives of the last check, as the code units \<open>index.ts\<close> holds:
  U+201A U+00FA U+00D6; U+201A U+00F9 U+00E5; U+F8FF U+00FC U+00EE U+00D1;
  U+201A U+00F6 U+2020 U+00D4 U+220F U+00E8; U+F8FF U+00FC U+00F6 U+00C4;
  U+F8FF U+00FC U+00EC U+00B6; U+F8FF U+00FC U+00EE U+00DF. That regular expression
  has no flag, so the code units are compared as they are.
\<close>

definition STATUS_GLYPHS :: "utf16 list" where
  "STATUS_GLYPHS =
    [[8218, 250, 214], [8218, 249, 229], [63743, 252, 238, 209],
     [8218, 246, 8224, 212, 8719, 232], [63743, 252, 246, 196], [63743, 252, 236, 182],
     [63743, 252, 238, 223]]"

fun test_bot_pattern :: "bot_pattern \<Rightarrow> utf16 \<Rightarrow> bool" where
  "test_bot_pattern (Name n) a = (toLowerCase a = toLowerCase (js n))"
| "test_bot_pattern (RegExp_end l) a = match_end (js l) a"

definition isBotUser :: "utf16 \<Rightarrow> bool" where
  "isBotUser a = list_ex (\<lambda>p. test_bot_pattern p a) BOT_PATTERNS"

definition isAutomatedContent :: "utf16 \<Rightarrow> bool" where
  "isAutomatedContent c = list_ex (\<lambda>p. match_start p (trim c)) AUTOMATED_CONTENT_PATTERNS"

definition status_emoji :: "utf16 \<Rightarrow> bool" where
  "status_emoji c =
     list_ex (\<lambda>g. take (length g) c = g \<and>
                   (case drop (length g) c of [] \<Rightarrow> False | x # _ \<Rightarrow> is_space x))
       STATUS_GLYPHS"

definition isHumanComment :: "Comment \<Rightarrow> bool" where
  "isHumanComment comment =
     (if isBotUser (comment_author comment) then False
      else if isAutomatedContent (content comment) then False
      else if length (content comment) < 10 then False
      else if status_emoji (content comment) then False
      else True)"

definition isHumanReview :: "Review \<Rightarrow> bool" where
  "isHumanReview review =
     isHumanComment
       \<lparr>comment_id = review_id review,
        comment_pr_id = review_pr_id review,
        github_comment_id = review_id review,
        comment_author = reviewer_username review,
        content = (case review_content review of None \<Rightarrow> [] | Some c \<Rightarrow> c),
        comment_created_at = submitted_at review,
        is_resolved = False,
        comment_type = Type_review\<rparr>"

section \<open>Analysis strategy\<close>

datatype strategy_type = human_discussion | code_only | hybrid

datatype level = high | medium | low

record PRAnalysisStrategy =
  strategy_type :: strategy_type
  human_comments :: nat
  bot_comments :: nat
  human_reviews :: nat
  bot_reviews :: nat
  confidence_level :: level

definition determineAnalysisStrategy :: "Comment list \<Rightarrow> Review list \<Rightarrow> PRAnalysisStrategy" where
  "determineAnalysisStrategy comments reviews =
     (let humanComments = filter isHumanComment comments;
          botComments = filter (\<lambda>c. \<not> isHumanComment c) comments;
          humanReviews = filter isHumanReview reviews;
          botReviews = filter (\<lambda>r. \<not> isHumanReview r) reviews;
          totalHumanInteractions = length humanComments + length humanReviews
      in if totalHumanInteractions = 0 then
           \<lparr>strategy_type = code_only,
            human_comments = length humanComments, bot_comments = length botComments,
            human_reviews = length humanReviews, bot_reviews = length botReviews,
            confidence_level = medium\<rparr>
         else if totalHumanInteractions \<ge> 5 \<or> length humanReviews \<ge> 2 then
           \<lparr>strategy_type = human_discussion,
            human_comments = length humanComments, bot_comments = length botComments,
            human_reviews = length humanReviews, bot_reviews = length botReviews,
            confidence_level = high\<rparr>
         else
           \<lparr>strategy_type = hybrid,
            human_comments = length humanComments, bot_comments = length botComments,
            human_reviews = length humanReviews, bot_reviews = length botReviews,
            confidence_level = medium\<rparr>)"

section \<open>Timeline reconstruction\<close>

text \<open>
  Numbers of the source are IEEE 754 binary64 numbers. A finite one is modelled by the
  rational it stands for; \<open>NaN\<close> and the infinities are not values of the model.
  \<open>round_double\<close> rounds a rational to the nearest double, a tie to the one with an
  even significand: \<open>exponent x\<close> is the \<open>e\<close> with \<open>2^e \<le> |x| < 2^(e+1)\<close>, the doubles of
  that size are the multiples of \<open>2^(e-52)\<close>, and of \<open>2^(-1074)\<close> among the subnormal
  numbers. Overflow does not arise in the arithmetic below and is not modelled.
  A decimal literal such as \<open>0.3\<close> is \<open>round_double (3/10)\<close>, and \<open>a - b\<close> on doubles is
  \<open>double_minus a b\<close>. The confidence score is computed this way.

  A duration is kept as the decimal with one digit that \<open>calculateDaysDiff\<close> computes,
  \<open>Math.round\<close> rounding to the nearest integer, a half upwards; the only tests on a
  duration compare it with 0, 14 and 30.
\<close>

definition exponent :: "rat \<Rightarrow> int" where
  "exponent x =
     (let (p, q) = quotient_of \<bar>x\<bar>;
          d = bitlen p - bitlen q
      in if 2 powi d \<le> \<bar>x\<bar> then d else d - 1)"

definition round_half_even :: "rat \<Rightarrow> int" where
  "round_half_even m =
     (let n = \<lfloor>m\<rfloor>; r = m - of_int n
      in if r < 1/2 then n else if r > 1/2 then n + 1 else if even n then n else n + 1)"

definition round_double :: "rat \<Rightarrow> rat" where
  "round_double x =
     (if x = 0 then 0
      else let q = max (exponent x - 52) (- 1074)
           in of_int (round_half_even (x / 2 powi q)) * 2 powi q)"

definition double_minus :: "rat \<Rightarrow> rat \<Rightarrow> rat" where
  "double_minus a b = round_double (a - b)"

datatype stage_name = pr_raised | first_review | comments_fixed | approved | merged

record PRTimelineStage =
  stage :: stage_name
  timestamp :: timestamp
  duration_from_previous :: "rat option"

datatype event_type =
  Ev_pr_created | Ev_first_review | Ev_changes_requested | Ev_changes_addressed |
  Ev_approved | Ev_merged

record TimelineEvent =
  event_type :: event_type
  event_timestamp :: timestamp
  actor :: utf16
  details :: "review_state option"

record ReviewCycle =
  cycle_number :: nat
  changes_requested_at :: timestamp
  changes_addressed_at :: "timestamp option"
  duration_days :: rat
  reviewer :: utf16

record StageDurations =
  pr_raised_to_first_review :: rat
  first_review_to_comments_fixed :: rat
  comments_fixed_to_approved :: rat
  approved_to_merged :: rat
  ongoing_time :: rat
  total_review_time :: rat

record Milestone =
  milestone_timestamp :: "timestamp option"
  achieved :: bool

record Milestones =
  milestone_pr_created :: Milestone
  milestone_first_review :: Milestone
  milestone_approved :: Milestone
  milestone_merged :: Milestone

text \<open>
  An issue is a message. The messages the validator builds from a template are kept as
  the template with the values it interpolates; \<open>Message\<close> is a literal text.
\<close>

datatype issue =
  Message utf16
| Stage_occurs_before stage_name stage_name
| Negative_duration stage_name
| Unusually_long_duration rat stage_name
| Review_cycle_took nat rat

record PRTimelineValidation =
  is_valid :: bool
  confidence_score :: rat
  issues :: "issue list"
  data_quality :: level

record EnhancedPRTimeline =
  pr_number :: int
  pr_title :: utf16
  pr_author :: utf16
  total_duration :: rat
  stages :: "PRTimelineStage list"
  is_completed :: bool
  stage_durations :: StageDurations
  milestones :: Milestones
  validation :: PRTimelineValidation
  review_cycles :: "ReviewCycle list"
  actual_events :: "TimelineEvent list"

definition calculateDaysDiff :: "timestamp \<Rightarrow> timestamp \<Rightarrow> rat" where
  "calculateDaysDiff startDate endDate =
     of_int \<lfloor>of_int (ms endDate - ms startDate) / (1000 * 60 * 60 * 24) * 10 + (1/2 :: rat)\<rfloor> / 10"

definition findChangesAddressedTime ::
  "PullRequest \<Rightarrow> timestamp \<Rightarrow> Review list \<Rightarrow> timestamp option" where
  "findChangesAddressedTime pr changesRequestedAt allReviews =
     (let subsequentReviews =
            filter (\<lambda>review. ms (submitted_at review) > ms changesRequestedAt \<and>
                      (review_state review = State_approved \<or>
                       review_state review = State_commented)) allReviews
      in case subsequentReviews of
           r # _ \<Rightarrow> Some (submitted_at r)
         | [] \<Rightarrow> if ms (updated_at pr) > ms changesRequestedAt then Some (updated_at pr)
                 else None)"

subsection \<open>The validator\<close>

fun check_order :: "PRTimelineStage list \<Rightarrow> issue list \<times> rat \<Rightarrow> issue list \<times> rat" where
  "check_order (prevStage # currStage # rest) (additionalIssues, adjustedConfidence) =
     check_order (currStage # rest)
       (if ms (timestamp currStage) < ms (timestamp prevStage)
        then (additionalIssues @ [Stage_occurs_before (stage currStage) (stage prevStage)],
              double_minus adjustedConfidence (round_double (3/10)))
        else (additionalIssues, adjustedConfidence))"
| "check_order [s] acc = acc"
| "check_order [] acc = acc"

definition check_duration :: "issue list \<times> rat \<Rightarrow> PRTimelineStage \<Rightarrow> issue list \<times> rat" where
  "check_duration acc s =
     (let acc1 =
            (case duration_from_previous s of
               Some d \<Rightarrow>
                 if d \<noteq> 0 \<and> d < 0
                 then (fst acc @ [Negative_duration (stage s)],
                       double_minus (snd acc) (round_double (2/10)))
                 else acc
             | None \<Rightarrow> acc)
      in case duration_from_previous s of
           Some d \<Rightarrow>
             if d \<noteq> 0 \<and> d > 30
             then (fst acc1 @ [Unusually_long_duration d (stage s)],
                   double_minus (snd acc1) (round_double (1/10)))
             else acc1
         | None \<Rightarrow> acc1)"

definition check_cycle :: "issue list \<times> rat \<Rightarrow> ReviewCycle \<Rightarrow> issue list \<times> rat" where
  "check_cycle acc cycle =
     (if duration_days cycle > 14
      then (fst acc @ [Review_cycle_took (cycle_number cycle) (duration_days cycle)],
            double_minus (snd acc) (round_double (5/100)))
      else acc)"

definition validateTimeline ::
  "PRTimelineStage list \<Rightarrow> TimelineEvent list \<Rightarrow> ReviewCycle list \<Rightarrow> issue list \<Rightarrow> rat
     \<Rightarrow> PRTimelineValidation" where
  "validateTimeline stageList events reviewCycles priorIssues confidenceScore =
     (let acc = foldl check_cycle
                  (foldl check_duration (check_order stageList (priorIssues, confidenceScore))
                     stageList)
                  reviewCycles;
          additionalIssues = fst acc;
          adjustedConfidence = snd acc;
          dataQuality =
            (if adjustedConfidence \<ge> round_double (8/10) \<and> length additionalIssues = 0
             then high
             else if adjustedConfidence \<ge> round_double (6/10) \<and> length additionalIssues \<le> 2
             then medium
             else low)
      in \<lparr>is_valid =
            (adjustedConfidence \<ge> round_double (5/10) \<and> length additionalIssues < 5),
          confidence_score = max 0 (min 1 adjustedConfidence),
          issues = additionalIssues,
          data_quality = dataQuality\<rparr>)"

subsection \<open>The walk over the sorted reviews\<close>

record walk =
  w_stages :: "PRTimelineStage list"
  w_events :: "TimelineEvent list"
  w_reviewCycles :: "ReviewCycle list"
  w_pr_raised_to_first_review :: rat
  firstReviewFound :: bool
  currentCycle :: nat
  lastChangesRequestedTime :: "timestamp option"
  lastApprovalTime :: "timestamp option"

definition note_first_review :: "PullRequest \<Rightarrow> Review \<Rightarrow> walk \<Rightarrow> walk" where
  "note_first_review pr review w =
     (if \<not> firstReviewFound w then
        let duration = calculateDaysDiff (created_at pr) (submitted_at review)
        in w\<lparr>firstReviewFound := True,
             w_pr_raised_to_first_review := duration,
             w_events := w_events w @
               [\<lparr>event_type = Ev_first_review, event_timestamp = submitted_at review,
                 actor = reviewer_username review, details = Some (review_state review)\<rparr>],
             w_stages := w_stages w @
               [\<lparr>stage = first_review, timestamp = submitted_at review,
                 duration_from_previous = Some duration\<rparr>]\<rparr>
      else w)"

definition note_changes_requested :: "PullRequest \<Rightarrow> Review list \<Rightarrow> Review \<Rightarrow> walk \<Rightarrow> walk" where
  "note_changes_requested pr sortedReviews review w =
     (if review_state review = State_changes_requested then
        let changesAddressedTime =
              findChangesAddressedTime pr (submitted_at review) sortedReviews
        in w\<lparr>currentCycle := currentCycle w + 1,
             lastChangesRequestedTime := Some (submitted_at review),
             w_reviewCycles := w_reviewCycles w @
               [\<lparr>cycle_number = currentCycle w + 1,
                 changes_requested_at = submitted_at review,
                 changes_addressed_at = changesAddressedTime,
                 duration_days =
                   (case changesAddressedTime of
                      Some t \<Rightarrow> calculateDaysDiff (submitted_at review) t
                    | None \<Rightarrow> 0),
                 reviewer = reviewer_username review\<rparr>],
             w_events := w_events w @
               [\<lparr>event_type = Ev_changes_requested, event_timestamp = submitted_at review,
                 actor = reviewer_username review, details = None\<rparr>] @
               (case changesAddressedTime of
                  Some t \<Rightarrow>
                    [\<lparr>event_type = Ev_changes_addressed, event_timestamp = t,
                      actor = author pr, details = None\<rparr>]
                | None \<Rightarrow> [])\<rparr>
      else w)"

definition note_approval :: "Review \<Rightarrow> walk \<Rightarrow> walk" where
  "note_approval review w =
     (if review_state review = State_approved then
        w\<lparr>lastApprovalTime := Some (submitted_at review),
          w_events := w_events w @
            [\<lparr>event_type = Ev_approved, event_timestamp = submitted_at review,
              actor = reviewer_username review, details = None\<rparr>]\<rparr>
      else w)"

definition review_step :: "PullRequest \<Rightarrow> Review list \<Rightarrow> walk \<Rightarrow> Review \<Rightarrow> walk" where
  "review_step pr sortedReviews w review =
     note_approval review
       (note_changes_requested pr sortedReviews review (note_first_review pr review w))"

definition initial_walk :: "PullRequest \<Rightarrow> walk" where
  "initial_walk pr =
     \<lparr>w_stages = [\<lparr>stage = pr_raised, timestamp = created_at pr,
                   duration_from_previous = None\<rparr>],
      w_events = [\<lparr>event_type = Ev_pr_created, event_timestamp = created_at pr,
                   actor = author pr, details = None\<rparr>],
      w_reviewCycles = [],
      w_pr_raised_to_first_review = 0,
      firstReviewFound = False,
      currentCycle = 0,
      lastChangesRequestedTime = None,
      lastApprovalTime = None\<rparr>"

subsection \<open>Stages after the walk\<close>

definition find_stage :: "stage_name \<Rightarrow> PRTimelineStage list \<Rightarrow> PRTimelineStage option" where
  "find_stage n stageList = find (\<lambda>s. stage s = n) stageList"

text \<open>
  The three \<open>baseTime\<close> constants of the source: the timestamp a stage's duration is
  measured from.
\<close>

definition baseTime_comments_fixed :: "PullRequest \<Rightarrow> PRTimelineStage list \<Rightarrow> timestamp" where
  "baseTime_comments_fixed pr stageList =
     (case find_stage first_review stageList of
        Some s \<Rightarrow> timestamp s
      | None \<Rightarrow> created_at pr)"

definition baseTime_approved :: "PullRequest \<Rightarrow> PRTimelineStage list \<Rightarrow> timestamp" where
  "baseTime_approved pr stageList =
     (case find_stage comments_fixed stageList of
        Some s \<Rightarrow> timestamp s
      | None \<Rightarrow>
          (case find_stage first_review stageList of
             Some s \<Rightarrow> timestamp s
           | None \<Rightarrow> created_at pr))"

definition baseTime_merged :: "PullRequest \<Rightarrow> PRTimelineStage list \<Rightarrow> timestamp" where
  "baseTime_merged pr stageList =
     (case find_stage approved stageList of
        Some s \<Rightarrow> timestamp s
      | None \<Rightarrow>
          (case find_stage comments_fixed stageList of
             Some s \<Rightarrow> timestamp s
           | None \<Rightarrow>
               (case find_stage first_review stageList of
                  Some s \<Rightarrow> timestamp s
                | None \<Rightarrow> created_at pr)))"

definition no_clear_resolution :: issue where
  "no_clear_resolution = Message (js ''Changes were requested but no clear resolution detected'')"

text \<open>
  The block after the walk that places \<open>comments_fixed\<close>. It returns the stages, the
  value of \<open>first_review_to_comments_fixed\<close>, the issues and the confidence score.
\<close>

definition comments_fixed_phase ::
  "PullRequest \<Rightarrow> walk \<Rightarrow> PRTimelineStage list \<times> rat \<times> issue list \<times> rat" where
  "comments_fixed_phase pr w =
     (if lastChangesRequestedTime w \<noteq> None \<and> length (w_reviewCycles w) > 0 then
        (let lastCycle = last (w_reviewCycles w)
         in case changes_addressed_at lastCycle of
              Some commentsFixedTime \<Rightarrow>
                (let baseTime = baseTime_comments_fixed pr (w_stages w);
                     duration = calculateDaysDiff baseTime commentsFixedTime
                 in (w_stages w @
                       [\<lparr>stage = comments_fixed, timestamp = commentsFixedTime,
                         duration_from_previous = Some duration\<rparr>],
                     duration, [], 1))
            | None \<Rightarrow>
                (w_stages w, 0, [no_clear_resolution],
                 double_minus 1 (round_double (2/10))))
      else (w_stages w, 0, [], 1))"

text \<open>The approval block: the stages and \<open>comments_fixed_to_approved\<close>.\<close>

definition approved_phase ::
  "PullRequest \<Rightarrow> timestamp option \<Rightarrow> PRTimelineStage list \<Rightarrow> PRTimelineStage list \<times> rat" where
  "approved_phase pr lastApproval stageList =
     (case lastApproval of
        Some t \<Rightarrow>
          (let baseTime = baseTime_approved pr stageList;
               duration = calculateDaysDiff baseTime t
           in (if find_stage approved stageList = None
               then stageList @
                      [\<lparr>stage = approved, timestamp = t, duration_from_previous = Some duration\<rparr>]
               else stageList,
               duration))
      | None \<Rightarrow> (stageList, 0))"

text \<open>The merge block: the stages, \<open>approved_to_merged\<close> and the events.\<close>

definition merged_phase ::
  "PullRequest \<Rightarrow> PRTimelineStage list \<Rightarrow> TimelineEvent list
     \<Rightarrow> PRTimelineStage list \<times> rat \<times> TimelineEvent list" where
  "merged_phase pr stageList events =
     (case merged_at pr of
        Some m \<Rightarrow>
          (let baseTime = baseTime_merged pr stageList;
               duration = calculateDaysDiff baseTime m
           in (stageList @
                 [\<lparr>stage = merged, timestamp = m, duration_from_previous = Some duration\<rparr>],
               duration,
               events @
                 [\<lparr>event_type = Ev_merged, event_timestamp = m, actor = js ''system'',
                   details = None\<rparr>]))
      | None \<Rightarrow> (stageList, 0, events))"

subsection \<open>The reconstruction\<close>

text \<open>
  \<open>calculateEnhancedPRTimeline\<close> takes the reading of the clock as its first argument
  (\<open>new Date()\<close>, read twice in the source; both readings are taken to be the same
  instant). \<open>Array.prototype.sort\<close> sorts the array it is called on, and it is stable;
  the second component of the result is the content of the caller's \<open>prReviews\<close> array
  when the function returns.
\<close>

definition calculateEnhancedPRTimeline ::
  "timestamp \<Rightarrow> PullRequest \<Rightarrow> Review list \<Rightarrow> Comment list \<Rightarrow> EnhancedPRTimeline \<times> Review list" where
  "calculateEnhancedPRTimeline now pr prReviews prComments =
     (let sortedReviews = sort_key (\<lambda>r. ms (submitted_at r)) prReviews;
          w = foldl (review_step pr sortedReviews) (initial_walk pr) sortedReviews;
          fixed = comments_fixed_phase pr w;
          appr = approved_phase pr (lastApprovalTime w) (fst fixed);
          mrg = merged_phase pr (fst appr) (w_events w);
          stageList = fst mrg;
          endTime = (case merged_at pr of Some m \<Rightarrow> m | None \<Rightarrow> now);
          totalDuration = calculateDaysDiff (created_at pr) endTime;
          ongoing =
            (case merged_at pr of
               None \<Rightarrow>
                 (let lastActivityTime =
                        (if length stageList > 1 then timestamp (last stageList)
                         else created_at pr)
                  in calculateDaysDiff lastActivityTime now)
             | Some m \<Rightarrow> 0)
      in (\<lparr>pr_number = github_pr_number pr,
           pr_title = title pr,
           pr_author = author pr,
           total_duration = totalDuration,
           stages = stageList,
           is_completed = (status pr = Status_merged \<or> status pr = Status_closed),
           stage_durations =
             \<lparr>pr_raised_to_first_review = w_pr_raised_to_first_review w,
              first_review_to_comments_fixed = fst (snd fixed),
              comments_fixed_to_approved = snd appr,
              approved_to_merged = fst (snd mrg),
              ongoing_time = ongoing,
              total_review_time = totalDuration\<rparr>,
           milestones =
             \<lparr>milestone_pr_created =
                \<lparr>milestone_timestamp = Some (created_at pr), achieved = True\<rparr>,
              milestone_first_review =
                \<lparr>milestone_timestamp = map_option timestamp (find_stage first_review stageList),
                 achieved = (find_stage first_review stageList \<noteq> None)\<rparr>,
              milestone_approved =
                \<lparr>milestone_timestamp = lastApprovalTime w,
                 achieved = (lastApprovalTime w \<noteq> None)\<rparr>,
              milestone_merged =
                \<lparr>milestone_timestamp = merged_at pr,
                 achieved = (status pr = Status_merged)\<rparr>\<rparr>,
           validation =
             validateTimeline stageList (snd (snd mrg)) (w_reviewCycles w)
               (fst (snd (snd fixed))) (snd (snd (snd fixed))),
           review_cycles = w_reviewCycles w,
           actual_events = snd (snd mrg)\<rparr>,
          sortedReviews))"

section \<open>Derived-artifact cache\<close>

text \<open>
  The module-level arrays the version hash reads. The hash does not read \<open>reviews\<close>.
\<close>

record store =
  pullRequests :: "PullRequest list"
  comments :: "Comment list"

fun decimal :: "nat \<Rightarrow> utf16" where
  "decimal n = (if n < 10 then [48 + n] else decimal (n div 10) @ [48 + n mod 10])"

definition digit36 :: "nat \<Rightarrow> nat" where
  "digit36 d = (if d < 10 then 48 + d else 87 + d)"

fun toString36 :: "nat \<Rightarrow> utf16" where
  "toString36 n = (if n < 36 then [digit36 n] else toString36 (n div 36) @ [digit36 (n mod 36)])"

definition hex_digit :: "nat \<Rightarrow> nat" where
  "hex_digit d = (if d < 10 then 48 + d else 87 + d)"

definition unicode_escape :: "nat \<Rightarrow> utf16" where
  "unicode_escape c =
     [92, 117, hex_digit (c div 4096 mod 16), hex_digit (c div 256 mod 16),
      hex_digit (c div 16 mod 16), hex_digit (c mod 16)]"

definition escape_unit :: "nat \<Rightarrow> utf16" where
  "escape_unit c =
     (if c = 8 then [92, 98] else if c = 9 then [92, 116] else if c = 10 then [92, 110]
      else if c = 12 then [92, 102] else if c = 13 then [92, 114]
      else if c = 34 then [92, 34] else if c = 92 then [92, 92]
      else if c < 32 then unicode_escape c else [c])"

text \<open>
  The body of a JSON string as \<open>JSON.stringify\<close> writes it: the short escapes, the
  control characters and the surrogates that stand alone are escaped.
\<close>

fun quote_units :: "utf16 \<Rightarrow> utf16" where
  "quote_units [] = []"
| "quote_units [c] =
     (if 55296 \<le> c \<and> c \<le> 57343 then unicode_escape c else escape_unit c)"
| "quote_units (c # d # s) =
     (if 55296 \<le> c \<and> c \<le> 56319 \<and> 56320 \<le> d \<and> d \<le> 57343 then c # d # quote_units s
      else if 55296 \<le> c \<and> c \<le> 57343 then unicode_escape c @ quote_units (d # s)
      else escape_unit c @ quote_units (d # s))"

definition dataString :: "store \<Rightarrow> utf16" where
  "dataString st =
     (let prCount = length (pullRequests st);
          commentCount = length (comments st);
          sorted_updates = sort (map (\<lambda>pr. iso (updated_at pr)) (pullRequests st));
          lastUpdated = (if sorted_updates = [] then [] else last sorted_updates);
          humanCommentCount = length (filter isHumanComment (comments st))
      in js ''{\"prCount\":'' @ decimal prCount @
         js '',\"commentCount\":'' @ decimal commentCount @
         js '',\"lastUpdated\":\"'' @ quote_units lastUpdated @
         js ''\",\"humanCommentCount\":'' @ decimal humanCommentCount @ js ''}'')"

definition hash_step :: "32 word \<Rightarrow> nat \<Rightarrow> 32 word" where
  "hash_step hash char = (push_bit 5 hash - hash) + of_nat char"

definition generateDataVersionHash :: "store \<Rightarrow> utf16" where
  "generateDataVersionHash st =
     (let hash = foldl hash_step 0 (dataString st)
      in js ''v1_'' @ toString36 (nat \<bar>sint hash\<bar>))"

record 'a CachedCommentCategorization =
  data :: 'a
  generated_at :: int
  expires_at :: int
  version :: utf16

definition CACHE_EXPIRY_HOURS :: int where
  "CACHE_EXPIRY_HOURS = 2"

text \<open>
  Both functions read the clock and the store; the model takes them as arguments.
  \<open>generated_at\<close> and \<open>expires_at\<close> are written by \<open>toISOString\<close> and read back by
  \<open>new Date\<close>, which gives the same millisecond; the model keeps the millisecond.
\<close>

definition isCacheValid :: "int \<Rightarrow> store \<Rightarrow> 'a CachedCommentCategorization option \<Rightarrow> bool" where
  "isCacheValid now st cache =
     (case cache of
        None \<Rightarrow> False
      | Some c \<Rightarrow>
          (let expiryTime = expires_at c;
               currentVersion = generateDataVersionHash st;
               isNotExpired = (now < expiryTime);
               isVersionValid = (version c = currentVersion)
           in isNotExpired \<and> isVersionValid))"

definition createCacheEntry :: "int \<Rightarrow> store \<Rightarrow> 'a \<Rightarrow> 'a CachedCommentCategorization" where
  "createCacheEntry now st d =
     (let expiryTime = now + CACHE_EXPIRY_HOURS * 60 * 60 * 1000
      in \<lparr>data = d,
          generated_at = now,
          expires_at = expiryTime,
          version = generateDataVersionHash st\<rparr>)"

section \<open>Auxiliary definitions\<close>

text \<open>
  \<open>cycle_of\<close> is the record the walk pushes for a \<open>changes_requested\<close> review, and
  \<open>the_walk\<close> the state of the walk when the loop over the sorted reviews ends.
\<close>

definition cycle_of :: "PullRequest \<Rightarrow> Review list \<Rightarrow> nat \<Rightarrow> Review \<Rightarrow> ReviewCycle" where
  "cycle_of pr sortedReviews n review =
     \<lparr>cycle_number = n,
      changes_requested_at = submitted_at review,
      changes_addressed_at = findChangesAddressedTime pr (submitted_at review) sortedReviews,
      duration_days =
        (case findChangesAddressedTime pr (submitted_at review) sortedReviews of
           Some t \<Rightarrow> calculateDaysDiff (submitted_at review) t
         | None \<Rightarrow> 0),
      reviewer = reviewer_username review\<rparr>"

definition the_walk :: "PullRequest \<Rightarrow> Review list \<Rightarrow> walk" where
  "the_walk pr rs = (let srt = sort_key (\<lambda>r. ms (submitted_at r)) rs in foldl (review_step pr srt) (initial_walk pr) srt)"


subsection \<open>The validator in the words of the specification\<close>

text \<open>
  The numbers of cases the specification names: adjacent stage pairs whose later
  timestamp precedes the earlier one, stages with a negative duration, stages with a
  duration of more than 30 days, review cycles of more than 14 days. The penalties are
  0.3 for each such pair, then for each stage in turn 0.2 if its duration is negative
  and 0.1 if it is over 30 days, then 0.05 for each such cycle; the confidence is the
  prior score with the penalties subtracted one after the other, each subtraction a
  subtraction of doubles. There is one issue for each penalty, after the prior issues.
\<close>

definition spec_order_violations :: "PRTimelineStage list \<Rightarrow> nat" where
  "spec_order_violations ss =
     length (filter (\<lambda>(earlier, later). ms (timestamp later) < ms (timestamp earlier))
               (zip ss (tl ss)))"

definition spec_negative_durations :: "PRTimelineStage list \<Rightarrow> nat" where
  "spec_negative_durations ss =
     length (filter (\<lambda>s. case duration_from_previous s of Some d \<Rightarrow> d < 0 | None \<Rightarrow> False) ss)"

definition spec_long_durations :: "PRTimelineStage list \<Rightarrow> nat" where
  "spec_long_durations ss =
     length (filter (\<lambda>s. case duration_from_previous s of Some d \<Rightarrow> d > 30 | None \<Rightarrow> False) ss)"

definition spec_long_cycles :: "ReviewCycle list \<Rightarrow> nat" where
  "spec_long_cycles cs = length (filter (\<lambda>c. duration_days c > 14) cs)"

definition spec_stage_penalties :: "PRTimelineStage \<Rightarrow> rat list" where
  "spec_stage_penalties s =
     (case duration_from_previous s of
        None \<Rightarrow> []
      | Some d \<Rightarrow>
          (if d < 0 then [round_double (2/10)] else []) @
          (if d > 30 then [round_double (1/10)] else []))"

definition spec_penalties :: "PRTimelineStage list \<Rightarrow> ReviewCycle list \<Rightarrow> rat list" where
  "spec_penalties ss cs =
     replicate (spec_order_violations ss) (round_double (3/10)) @
     concat (map spec_stage_penalties ss) @
     replicate (spec_long_cycles cs) (round_double (5/100))"

definition spec_confidence :: "rat \<Rightarrow> PRTimelineStage list \<Rightarrow> ReviewCycle list \<Rightarrow> rat" where
  "spec_confidence c ss cs = foldl double_minus c (spec_penalties ss cs)"

definition spec_issue_count :: "issue list \<Rightarrow> PRTimelineStage list \<Rightarrow> ReviewCycle list \<Rightarrow> nat" where
  "spec_issue_count prior ss cs =
     length prior + spec_order_violations ss + spec_negative_durations ss +
     spec_long_durations ss + spec_long_cycles cs"


section \<open>Concrete inputs\<close>

text \<open>Records used to run the definitions above on explicit data.\<close>

definition mk_comment :: "string \<Rightarrow> string \<Rightarrow> Comment" where
  "mk_comment a c =
     \<lparr>comment_id = 1, comment_pr_id = 7, github_comment_id = 1001,
      comment_author = js a, content = js c,
      comment_created_at = \<lparr>iso = js ''2024-01-02T10:00:00Z'', ms = 1704189600000\<rparr>,
      is_resolved = False, comment_type = Type_issue\<rparr>"

text \<open>Two letters followed by ten blanks: twelve code units, two after trimming.\<close>

definition padded_comment :: Comment where
  "padded_comment = mk_comment ''alice'' ''ok          ''"

definition short_comment :: Comment where
  "short_comment = mk_comment ''alice'' ''LGTM''"

definition long_comment :: Comment where
  "long_comment = mk_comment ''alice'' ''Please rename this variable''"

definition empty_store :: store where
  "empty_store = \<lparr>pullRequests = [], comments = []\<rparr>"

definition one_comment_store :: store where
  "one_comment_store = \<lparr>pullRequests = [], comments = [long_comment]\<rparr>"

text \<open>
  \<open>jan d\<close> is the day \<open>d\<close> of January 2024, written as a date; \<open>new Date\<close> reads a
  date without a time as midnight UTC, and 2024-01-01T00:00:00Z is 1704067200000.
\<close>

definition jan :: "nat \<Rightarrow> timestamp" where
  "jan d = \<lparr>iso = js ''2024-01-'' @ [48 + d div 10, 48 + d mod 10],
            ms = 1704067200000 + (int d - 1) * 86400000\<rparr>"

definition mk_pr :: "timestamp \<Rightarrow> timestamp \<Rightarrow> timestamp option \<Rightarrow> pr_status \<Rightarrow> PullRequest" where
  "mk_pr created updated mrg st =
     \<lparr>pr_id = 1, github_pr_number = 7, title = js ''Add connector'', author = js ''alice'',
      created_at = created, updated_at = updated, merged_at = mrg, status = st\<rparr>"

definition mk_review :: "int \<Rightarrow> review_state \<Rightarrow> timestamp \<Rightarrow> Review" where
  "mk_review i s t =
     \<lparr>review_id = i, review_pr_id = 7, reviewer_username = js ''bob'', review_state = s,
      submitted_at = t, is_latest_review = True, review_content = None\<rparr>"


text \<open>A pull request merged without any review.\<close>

definition merged_unreviewed_pr :: PullRequest where
  "merged_unreviewed_pr = mk_pr (jan 1) (jan 2) (Some (jan 2)) Status_merged"


text \<open>
  Scenario A of the specification: created on 1 January, one approving review on
  3 January, not merged.
\<close>

definition scenario_A_pr :: PullRequest where
  "scenario_A_pr = mk_pr (jan 1) (jan 3) None Status_open"

definition scenario_A_stages :: "PRTimelineStage list" where
  "scenario_A_stages =
     stages (fst (calculateEnhancedPRTimeline (jan 9) scenario_A_pr
                    [mk_review 1 State_approved (jan 3)] []))"


text \<open>
  Scenario B of the specification: changes requested on 2 January, a comment on
  5 January, an approval on 6 January, merged on 7 January.
\<close>

definition scenario_B_pr :: PullRequest where
  "scenario_B_pr = mk_pr (jan 1) (jan 7) (Some (jan 7)) Status_merged"

definition scenario_B_reviews :: "Review list" where
  "scenario_B_reviews =
     [mk_review 1 State_changes_requested (jan 2), mk_review 2 State_commented (jan 5),
      mk_review 3 State_approved (jan 6)]"

definition scenario_B_stages :: "PRTimelineStage list" where
  "scenario_B_stages =
     stages (fst (calculateEnhancedPRTimeline (jan 9) scenario_B_pr scenario_B_reviews []))"


text \<open>
  Changes requested on 3 January on a pull request last updated on 2 January, with no
  later review; and changes requested on 2 January that are approved on 20 January.
\<close>

definition unresolved_pr :: PullRequest where
  "unresolved_pr = mk_pr (jan 1) (jan 2) None Status_open"

definition unresolved_timeline :: EnhancedPRTimeline where
  "unresolved_timeline =
     fst (calculateEnhancedPRTimeline (jan 9) unresolved_pr
            [mk_review 1 State_changes_requested (jan 3)] [])"

definition slow_fix_timeline :: EnhancedPRTimeline where
  "slow_fix_timeline =
     fst (calculateEnhancedPRTimeline (jan 25) (mk_pr (jan 1) (jan 20) None Status_open)
            [mk_review 1 State_changes_requested (jan 2), mk_review 2 State_approved (jan 20)] [])"


text \<open>
  Two stages whose timestamps are out of order, the second with a negative duration;
  two reviews, the later one first.
\<close>

definition disordered_stages :: "PRTimelineStage list" where
  "disordered_stages =
     [\<lparr>stage = pr_raised, timestamp = jan 5, duration_from_previous = None\<rparr>,
      \<lparr>stage = first_review, timestamp = jan 3, duration_from_previous = Some (- 2)\<rparr>]"

definition late_then_early :: "Review list" where
  "late_then_early =
     [mk_review 2 State_approved (jan 6), mk_review 1 State_changes_requested (jan 2)]"


section \<open>Properties of the classifier and the strategy selector\<close>

lemmas classifier_defs =
  js_def isBotUser_def BOT_PATTERNS_def match_end_def toLowerCase_def canon_def
  isAutomatedContent_def AUTOMATED_CONTENT_PATTERNS_def lit_def trim_def is_space_def
  isHumanComment_def status_emoji_def STATUS_GLYPHS_def mk_comment_def

lemma long_comment_human: "isHumanComment long_comment"
  by (simp add: long_comment_def classifier_defs)

lemma short_comment_not_human: "\<not> isHumanComment short_comment"
  by (simp add: short_comment_def classifier_defs)

text \<open>
  C6. The strategy is \<open>code_only\<close> with confidence \<open>medium\<close> exactly when the number of
  human comments plus the number of human reviews is 0, \<open>human_discussion\<close> with
  confidence \<open>high\<close> exactly when that sum is at least 5 or there are at least 2 human
  reviews, and \<open>hybrid\<close> with confidence \<open>medium\<close> in every other case.
\<close>

theorem strategy_selection:
  "let s = determineAnalysisStrategy cs rs;
       hc = length (filter isHumanComment cs);
       hr = length (filter isHumanReview rs)
   in (strategy_type s = code_only \<and> confidence_level s = medium \<longleftrightarrow> hc + hr = 0) \<and>
      (strategy_type s = human_discussion \<and> confidence_level s = high \<longleftrightarrow>
         hc + hr \<ge> 5 \<or> hr \<ge> 2) \<and>
      (strategy_type s = hybrid \<and> confidence_level s = medium \<longleftrightarrow>
         \<not> (hc + hr = 0) \<and> \<not> (hc + hr \<ge> 5 \<or> hr \<ge> 2))"
  by (auto simp: determineAnalysisStrategy_def Let_def)

theorem strategy_selection_witness:
  "strategy_type (determineAnalysisStrategy [long_comment, short_comment] []) = hybrid \<and>
   confidence_level (determineAnalysisStrategy [long_comment, short_comment] []) = medium"
  using strategy_selection [of "[long_comment, short_comment]" "[]"]
    long_comment_human short_comment_not_human
  by (simp add: Let_def)

text \<open>
  C7, as the specification states it: a comment whose author matches no bot pattern and
  whose body matches no automated-content pattern is labelled bot when its trimmed body
  has fewer than 10 characters. The source measures \<open>comment.content.length\<close>, the body
  before trimming, so a short body padded with blanks is labelled human.
\<close>

theorem short_trimmed_body_counterexample:
  "\<not> isBotUser (comment_author padded_comment) \<and>
   \<not> isAutomatedContent (content padded_comment) \<and>
   length (trim (content padded_comment)) < 10 \<and>
   isHumanComment padded_comment"
  by (simp add: padded_comment_def classifier_defs)

text \<open>
  C7, amended: a comment whose author matches no bot pattern and whose body matches no
  automated-content pattern is labelled bot when its body, as it stands and counted in
  UTF-16 code units, has fewer than 10 characters.
\<close>

theorem short_body_is_bot:
  "\<not> isBotUser (comment_author c) \<Longrightarrow> \<not> isAutomatedContent (content c) \<Longrightarrow>
   length (content c) < 10 \<Longrightarrow> \<not> isHumanComment c"
  by (simp add: isHumanComment_def)

theorem short_body_is_bot_witness:
  "\<not> isBotUser (comment_author short_comment) \<and>
   \<not> isAutomatedContent (content short_comment) \<and>
   length (content short_comment) < 10 \<and> \<not> isHumanComment short_comment"
proof -
  have a: "\<not> isBotUser (comment_author short_comment)"
    by (simp add: short_comment_def classifier_defs)
  have b: "\<not> isAutomatedContent (content short_comment)"
    by (simp add: short_comment_def classifier_defs)
  have c: "length (content short_comment) < 10"
    by (simp add: short_comment_def js_def mk_comment_def)
  show ?thesis using a b c short_body_is_bot [OF a b c] by simp
qed

section \<open>Properties of the cache\<close>

lemma dataString_empty_store:
  "dataString empty_store =
     js ''{\"prCount\":0,\"commentCount\":0,\"lastUpdated\":\"\",\"humanCommentCount\":0}''"
  by (simp add: dataString_def empty_store_def js_def)

lemma dataString_one_comment_store:
  "dataString one_comment_store =
     js ''{\"prCount\":0,\"commentCount\":1,\"lastUpdated\":\"\",\"humanCommentCount\":1}''"
  using long_comment_human by (simp add: dataString_def one_comment_store_def js_def)

lemma hash_empty_store: "foldl hash_step 0 (dataString empty_store) = 1985202245"
  unfolding dataString_empty_store by (simp add: js_def hash_step_def)

lemma hash_one_comment_store: "foldl hash_step 0 (dataString one_comment_store) = 49541989"
  unfolding dataString_one_comment_store by (simp add: js_def hash_step_def)

lemma version_empty_store: "generateDataVersionHash empty_store = js ''v1_wtxrut''"
  unfolding generateDataVersionHash_def hash_empty_store by (simp add: js_def digit36_def)

lemma version_one_comment_store: "generateDataVersionHash one_comment_store = js ''v1_thuud''"
  unfolding generateDataVersionHash_def hash_one_comment_store by (simp add: js_def digit36_def)

text \<open>
  C8. An entry made by \<open>createCacheEntry\<close> is valid when it is checked at the instant of
  its creation against the same store; it expires 2 hours after its creation, and it is
  not valid at any instant after its expiry; it is not valid against a store whose
  version hash differs from the version the entry holds.
\<close>

theorem cache_round_trip:
  "isCacheValid now st (Some (createCacheEntry now st d)) \<and>
   expires_at (createCacheEntry now st d) = now + 2 * 60 * 60 * 1000 \<and>
   (expires_at (createCacheEntry now st d) < later \<longrightarrow>
      \<not> isCacheValid later st' (Some (createCacheEntry now st d))) \<and>
   (generateDataVersionHash st' \<noteq> version (createCacheEntry now st d) \<longrightarrow>
      \<not> isCacheValid later st' (Some (createCacheEntry now st d)))"
  by (auto simp: isCacheValid_def createCacheEntry_def CACHE_EXPIRY_HOURS_def Let_def)

theorem cache_round_trip_witness:
  "isCacheValid 1000 empty_store (Some (createCacheEntry 1000 empty_store ())) \<and>
   expires_at (createCacheEntry 1000 empty_store ()) = 7201000 \<and>
   \<not> isCacheValid 7201001 empty_store (Some (createCacheEntry 1000 empty_store ())) \<and>
   generateDataVersionHash one_comment_store \<noteq>
     version (createCacheEntry 1000 empty_store ()) \<and>
   \<not> isCacheValid 1000 one_comment_store (Some (createCacheEntry 1000 empty_store ()))"
proof -
  have e: "expires_at (createCacheEntry 1000 empty_store ()) = 7201000"
    by (simp add: createCacheEntry_def CACHE_EXPIRY_HOURS_def)
  have d: "generateDataVersionHash one_comment_store \<noteq>
           version (createCacheEntry 1000 empty_store ())"
    by (simp add: createCacheEntry_def version_empty_store version_one_comment_store js_def)
  show ?thesis
    using cache_round_trip [of 1000 empty_store "()" 7201001 empty_store]
      cache_round_trip [of 1000 empty_store "()" 1000 one_comment_store] e d
    by simp
qed

section \<open>Properties of the rounding\<close>

lemma exponent_bounds:
  assumes "x \<noteq> 0"
  shows "2 powi exponent x \<le> \<bar>x\<bar> \<and> \<bar>x\<bar> < 2 powi (exponent x + 1)"
proof -
  obtain p q where pq: "quotient_of \<bar>x\<bar> = (p, q)" by (cases "quotient_of \<bar>x\<bar>")
  have q: "q > 0" using pq by (rule quotient_of_denom_pos)
  have x: "\<bar>x\<bar> = of_int p / of_int q" using pq by (rule quotient_of_div)
  have p: "p > 0"
  proof (rule ccontr)
    assume "\<not> p > 0"
    then have "of_int p / (of_int q :: rat) \<le> 0" using q by (simp add: divide_le_0_iff)
    then show False using x assms by simp
  qed
  define a where "a = bitlen p"
  define b where "b = bitlen q"
  have a: "2 ^ nat (a - 1) \<le> p" "p < 2 ^ nat a" using bitlen_bounds [OF p] by (simp_all add: a_def)
  have b: "2 ^ nat (b - 1) \<le> q" "q < 2 ^ nat b" using bitlen_bounds [OF q] by (simp_all add: b_def)
  have a1: "a \<ge> 1" using p a(2) by (cases "a \<ge> 1") auto
  have b1: "b \<ge> 1" using q b(2) by (cases "b \<ge> 1") auto
  have pa: "(2::rat) powi (a - 1) \<le> of_int p" "of_int p < (2::rat) powi a"
  proof -
    have "(2::rat) powi (a - 1) = of_int (2 ^ nat (a - 1))" using a1 by (simp add: power_int_def)
    then show "(2::rat) powi (a - 1) \<le> of_int p" using a(1) by (simp only: of_int_le_iff)
    have "(2::rat) powi a = of_int (2 ^ nat a)" using a1 by (simp add: power_int_def)
    then show "of_int p < (2::rat) powi a" using a(2) by (simp only: of_int_less_iff)
  qed
  have pb: "(2::rat) powi (b - 1) \<le> of_int q" "of_int q < (2::rat) powi b"
  proof -
    have "(2::rat) powi (b - 1) = of_int (2 ^ nat (b - 1))" using b1 by (simp add: power_int_def)
    then show "(2::rat) powi (b - 1) \<le> of_int q" using b(1) by (simp only: of_int_le_iff)
    have "(2::rat) powi b = of_int (2 ^ nat b)" using b1 by (simp add: power_int_def)
    then show "of_int q < (2::rat) powi b" using b(2) by (simp only: of_int_less_iff)
  qed
  have qpos: "(0::rat) < of_int q" using q by simp
  have pos: "(0::rat) < 2 powi k" for k by simp
  have up: "\<bar>x\<bar> < 2 powi (a - b + 1)"
  proof -
    have "of_int p / of_int q < (2::rat) powi a / of_int q"
      using pa(2) qpos by (simp add: divide_strict_right_mono)
    also have "\<dots> \<le> 2 powi a / 2 powi (b - 1)"
      using pb(1) pos [of "b - 1"] pos [of a] by (simp add: frac_le)
    also have "\<dots> = 2 powi (a - b + 1)"
      by (simp add: power_int_diff power_int_add)
    finally show ?thesis using x by simp
  qed
  have lo: "2 powi (a - b - 1) < \<bar>x\<bar>"
  proof -
    have "(2::rat) powi (a - b - 1) = 2 powi (a - 1) / 2 powi b"
      by (simp add: power_int_diff)
    also have "\<dots> < 2 powi (a - 1) / of_int q"
      using pb(2) qpos pos [of "a - 1"] by (simp add: divide_strict_left_mono)
    also have "\<dots> \<le> of_int p / of_int q"
      using pa(1) qpos by (simp add: divide_right_mono)
    finally show ?thesis using x by simp
  qed
  have e: "exponent x = (if 2 powi (a - b) \<le> \<bar>x\<bar> then a - b else a - b - 1)"
    by (simp add: exponent_def pq a_def b_def)
  show ?thesis
  proof (cases "2 powi (a - b) \<le> \<bar>x\<bar>")
    case True
    then show ?thesis using up e by simp
  next
    case False
    then show ?thesis using lo e by simp
  qed
qed

lemma pow_lt_exp:
  assumes "(2::rat) powi m < 2 powi n"
  shows "m < n"
proof (rule ccontr)
  assume "\<not> m < n"
  then have "n \<le> m" by simp
  then have "(2::rat) powi n \<le> 2 powi m" by (intro power_int_increasing) simp_all
  then show False using assms by simp
qed

lemma exponent_unique:
  assumes "2 powi e \<le> \<bar>x\<bar>" and "\<bar>x\<bar> < 2 powi (e + 1)"
  shows "exponent x = e"
proof -
  have "(0::rat) < 2 powi e" by simp
  then have "0 < \<bar>x\<bar>" using assms(1) by linarith
  then have nz: "x \<noteq> 0" by auto
  have b: "2 powi exponent x \<le> \<bar>x\<bar>" "\<bar>x\<bar> < 2 powi (exponent x + 1)"
    using exponent_bounds [OF nz] by simp_all
  have "(2::rat) powi e < 2 powi (exponent x + 1)" using assms(1) b(2) by simp
  then have 1: "e < exponent x + 1" by (rule pow_lt_exp)
  have "(2::rat) powi exponent x < 2 powi (e + 1)" using assms(2) b(1) by simp
  then have 2: "exponent x < e + 1" by (rule pow_lt_exp)
  show ?thesis using 1 2 by simp
qed

lemma round_half_even_bounds: "\<lfloor>m\<rfloor> \<le> round_half_even m \<and> round_half_even m \<le> \<lceil>m\<rceil>"
proof -
  have "\<lceil>m\<rceil> = \<lfloor>m\<rfloor> + 1" if "m - of_int \<lfloor>m\<rfloor> > 0"
    using that by (simp add: ceiling_altdef)
  then show ?thesis
    by (auto simp: round_half_even_def Let_def ceiling_altdef)
qed

lemma round_half_even_near:
  assumes "\<bar>m - of_int n\<bar> < 1/2"
  shows "round_half_even m = n"
proof (cases "of_int n \<le> m")
  case True
  then have "\<lfloor>m\<rfloor> = n" using assms by (intro floor_unique) auto
  then show ?thesis using assms True by (simp add: round_half_even_def Let_def)
next
  case False
  then have f: "\<lfloor>m\<rfloor> = n - 1" using assms by (intro floor_unique) auto
  have "m - of_int (n - 1) > 1/2" using assms False by auto
  then show ?thesis using f by (simp add: round_half_even_def Let_def)
qed

lemma round_half_even_tie:
  assumes "m = of_int n + 1/2"
  shows "round_half_even m = (if even n then n else n + 1)"
proof -
  have "\<lfloor>m\<rfloor> = n" using assms by (intro floor_unique) auto
  then show ?thesis using assms by (simp add: round_half_even_def Let_def)
qed

lemma round_double_eval:
  assumes "2 powi e \<le> \<bar>x\<bar>" and "\<bar>x\<bar> < 2 powi (e + 1)"
    and "q = max (e - 52) (- 1074)" and "round_half_even (x / 2 powi q) = n"
  shows "round_double x = of_int n * 2 powi q"
proof -
  have "(0::rat) < 2 powi e" by simp
  then have "0 < \<bar>x\<bar>" using assms(1) by linarith
  then have nz: "x \<noteq> 0" by auto
  have "exponent x = e" using assms(1,2) by (rule exponent_unique)
  then show ?thesis using nz assms(3,4) by (simp add: round_double_def Let_def)
qed

lemma round_double_nonneg:
  assumes "0 \<le> x"
  shows "0 \<le> round_double x"
proof (cases "x = 0")
  case True
  then show ?thesis by (simp add: round_double_def)
next
  case False
  define q where "q = max (exponent x - 52) (- 1074)"
  have "0 \<le> x / 2 powi q" using assms by simp
  then have "0 \<le> \<lfloor>x / 2 powi q\<rfloor>" by simp
  then have "0 \<le> round_half_even (x / 2 powi q)"
    using round_half_even_bounds [of "x / 2 powi q"] by linarith
  then show ?thesis using False by (simp add: round_double_def Let_def q_def)
qed

lemma round_double_nonpos:
  assumes "x \<le> 0"
  shows "round_double x \<le> 0"
proof (cases "x = 0")
  case True
  then show ?thesis by (simp add: round_double_def)
next
  case False
  define q where "q = max (exponent x - 52) (- 1074)"
  have "x / 2 powi q \<le> 0" using assms by (simp add: divide_le_0_iff)
  then have "\<lceil>x / 2 powi q\<rceil> \<le> 0" by (simp add: ceiling_le_zero)
  then have "round_half_even (x / 2 powi q) \<le> 0"
    using round_half_even_bounds [of "x / 2 powi q"] by linarith
  then have "of_int (round_half_even (x / 2 powi q)) * (2::rat) powi q \<le> 0"
    by (simp add: mult_le_0_iff)
  then show ?thesis using False by (simp add: round_double_def Let_def q_def)
qed

text \<open>
  Rounding does not pass a double between 1/2 and 1: what is at most \<open>K * 2^(-53)\<close>
  rounds to at most that.
\<close>

lemma round_double_below:
  assumes x: "x \<le> of_int K * 2 powi (- 53)" and K: "2 ^ 52 \<le> K" "K < 2 ^ 53"
  shows "round_double x \<le> of_int K * 2 powi (- 53)"
proof (cases "x \<le> 0")
  case True
  have "0 \<le> of_int K * (2::rat) powi (- 53)" using K(1) by simp
  then show ?thesis using round_double_nonpos [OF True] by linarith
next
  case False
  then have pos: "0 < x" by simp
  define e where "e = exponent x"
  define q where "q = max (e - 52) (- 1074)"
  have b: "2 powi e \<le> x" "x < 2 powi (e + 1)"
    using exponent_bounds [of x] pos by (simp_all add: e_def)
  have rd: "round_double x = of_int (round_half_even (x / 2 powi q)) * 2 powi q"
    using pos by (simp add: round_double_def Let_def q_def e_def)
  have qpos: "(0::rat) < 2 powi q" by simp
  have "of_int K * (2::rat) powi (- 53) < of_int (2 ^ 53) * 2 powi (- 53)"
    using K(2) by (intro mult_strict_right_mono) (simp_all only: of_int_less_iff zero_less_power_int zero_less_numeral)
  also have "\<dots> = 1" by (simp add: power_int_minus)
  finally have x1: "x < 1" using x by simp
  have "(2::rat) powi e < 2 powi 0" using b(1) x1 by simp
  then have e0: "e < 0" by (rule pow_lt_exp)
  show ?thesis
  proof (cases "e = - 1")
    case True
    then have q53: "q = - 53" by (simp add: q_def)
    have "x / 2 powi q \<le> of_int K"
      using x by (simp add: q53 power_int_minus field_simps)
    then have "\<lceil>x / 2 powi q\<rceil> \<le> K" by (simp add: ceiling_le)
    then have "round_half_even (x / 2 powi q) \<le> K"
      using round_half_even_bounds [of "x / 2 powi q"] by linarith
    then have "of_int (round_half_even (x / 2 powi q)) * (2::rat) powi q \<le> of_int K * 2 powi q"
      by (intro mult_right_mono) simp_all
    then show ?thesis by (simp add: rd q53)
  next
    case False
    then have e2: "e \<le> - 2" using e0 by simp
    have qle: "q \<le> - 54" "e - 52 \<le> q" using e2 by (simp_all add: q_def)
    define N :: int where "N = 2 ^ nat (- 1 - q)"
    have N: "of_int N = (2::rat) powi (- 1 - q)" using qle(1) by (simp add: N_def power_int_def)
    have "x / 2 powi q < 2 powi (e + 1) / 2 powi q"
      using b(2) qpos by (simp add: divide_strict_right_mono)
    also have "\<dots> = 2 powi (e + 1 - q)" by (simp add: power_int_diff)
    also have "\<dots> \<le> 2 powi (- 1 - q)" using e2 by (intro power_int_increasing) simp_all
    finally have "x / 2 powi q \<le> of_int N" using N by simp
    then have "\<lceil>x / 2 powi q\<rceil> \<le> N" by (simp add: ceiling_le)
    then have "round_half_even (x / 2 powi q) \<le> N"
      using round_half_even_bounds [of "x / 2 powi q"] by linarith
    then have "of_int (round_half_even (x / 2 powi q)) * (2::rat) powi q \<le> of_int N * 2 powi q"
      by (intro mult_right_mono) simp_all
    also have "of_int N * (2::rat) powi q = 2 powi (- 1)"
      unfolding N by (simp flip: power_int_add)
    also have "(2::rat) powi (- 1) = of_int (2 ^ 52) * 2 powi (- 53)"
      by (simp add: power_int_minus)
    also have "\<dots> \<le> of_int K * 2 powi (- 53)"
      using K(1) by (intro mult_right_mono) (simp_all only: of_int_le_iff zero_le_power_int zero_le_numeral)
    finally show ?thesis by (simp add: rd)
  qed
qed

lemma fold_double_minus_below:
  assumes "c \<le> of_int K * 2 powi (- 53)" and "2 ^ 52 \<le> K" "K < 2 ^ 53"
    and "\<forall>p \<in> set ps. 0 \<le> p"
  shows "foldl double_minus c ps \<le> of_int K * 2 powi (- 53)"
  using assms(1,4)
proof (induction ps arbitrary: c)
  case Nil
  then show ?case by simp
next
  case (Cons p ps)
  have "c - p \<le> of_int K * 2 powi (- 53)" using Cons.prems by simp
  then have "double_minus c p \<le> of_int K * 2 powi (- 53)"
    unfolding double_minus_def using assms(2,3) by (rule round_double_below)
  then show ?case using Cons.IH Cons.prems(2) by simp
qed

subsection \<open>The literals and the differences that occur\<close>

lemma double_0_3: "round_double (3/10) = 5404319552844595 / 18014398509481984"
proof -
  have "round_double (3/10) = of_int 5404319552844595 * 2 powi (- 54)"
    by (rule round_double_eval [where e = "- 2"])
       (simp_all add: power_int_minus round_half_even_near)
  then show ?thesis by (simp add: power_int_minus)
qed

lemma double_0_2: "round_double (2/10) = 3602879701896397 / 18014398509481984"
proof -
  have "round_double (2/10) = of_int 7205759403792794 * 2 powi (- 55)"
    by (rule round_double_eval [where e = "- 3"])
       (simp_all add: power_int_minus round_half_even_near)
  then show ?thesis by (simp add: power_int_minus)
qed

lemma double_0_1: "round_double (1/10) = 3602879701896397 / 36028797018963968"
proof -
  have "round_double (1/10) = of_int 7205759403792794 * 2 powi (- 56)"
    by (rule round_double_eval [where e = "- 4"])
       (simp_all add: power_int_minus round_half_even_near)
  then show ?thesis by (simp add: power_int_minus)
qed

lemma double_0_05: "round_double (5/100) = 3602879701896397 / 72057594037927936"
proof -
  have "round_double (5/100) = of_int 7205759403792794 * 2 powi (- 57)"
    by (rule round_double_eval [where e = "- 5"])
       (simp_all add: power_int_minus round_half_even_near)
  then show ?thesis by (simp add: power_int_minus)
qed

lemma double_0_8: "round_double (8/10) = of_int 7205759403792794 * 2 powi (- 53)"
  by (rule round_double_eval [where e = "- 1"])
     (simp_all add: power_int_minus round_half_even_near)

lemma double_0_6: "round_double (6/10) = of_int 5404319552844595 * 2 powi (- 53)"
  by (rule round_double_eval [where e = "- 1"])
     (simp_all add: power_int_minus round_half_even_near)

lemma double_0_5: "round_double (5/10) = 1/2"
proof -
  have "round_double (5/10) = of_int 4503599627370496 * 2 powi (- 53)"
    by (rule round_double_eval [where e = "- 1"])
       (simp_all add: power_int_minus round_half_even_near)
  then show ?thesis by (simp add: power_int_minus)
qed

lemma double_1_minus_0_2: "double_minus 1 (round_double (2/10)) = round_double (8/10)"
proof -
  have d: "1 - round_double (2/10) = 14411518807585587 / 18014398509481984"
    unfolding double_0_2 by simp
  have r: "round_double (14411518807585587 / 18014398509481984) =
        of_int 7205759403792794 * 2 powi (- 53)"
    by (rule round_double_eval [where e = "- 1"])
       (simp_all add: power_int_minus round_half_even_tie [where n = 7205759403792793])
  show ?thesis unfolding double_minus_def d r double_0_8 by (rule refl)
qed

lemma double_1_minus_0_3:
  "double_minus 1 (round_double (3/10)) = 3152519739159347 / 4503599627370496"
proof -
  have d: "1 - round_double (3/10) = 12610078956637389 / 18014398509481984"
    unfolding double_0_3 by simp
  have r: "round_double (12610078956637389 / 18014398509481984) =
        of_int 6305039478318694 * 2 powi (- 53)"
    by (rule round_double_eval [where e = "- 1"])
       (simp_all add: power_int_minus round_half_even_tie [where n = 6305039478318694])
  show ?thesis unfolding double_minus_def d r by (simp add: power_int_minus)
qed

lemma double_0_7_minus_0_2:
  "double_minus (3152519739159347 / 4503599627370496) (round_double (2/10)) =
     9007199254740991 / 18014398509481984"
proof -
  have d: "3152519739159347 / 4503599627370496 - round_double (2/10) =
        9007199254740991 / 18014398509481984"
    unfolding double_0_2 by simp
  have r: "round_double (9007199254740991 / 18014398509481984) =
        of_int 9007199254740991 * 2 powi (- 54)"
    by (rule round_double_eval [where e = "- 2"])
       (simp_all add: power_int_minus round_half_even_near)
  show ?thesis unfolding double_minus_def d r by (simp add: power_int_minus)
qed

section \<open>Properties of the validator\<close>

lemma check_order_spec:
  "\<exists>X. check_order ss (is, c) =
         (is @ X,
          foldl double_minus c (replicate (spec_order_violations ss) (round_double (3/10)))) \<and>
       length X = spec_order_violations ss"
proof (induction ss arbitrary: "is" c)
  case Nil
  show ?case by (simp add: spec_order_violations_def)
next
  case (Cons a ss)
  show ?case
  proof (cases ss)
    case Nil
    then show ?thesis by (simp add: spec_order_violations_def)
  next
    case (Cons b rest)
    show ?thesis
    proof (cases "ms (timestamp b) < ms (timestamp a)")
      case True
      obtain X where X:
        "check_order ss (is @ [Stage_occurs_before (stage b) (stage a)],
                         double_minus c (round_double (3/10))) =
          ((is @ [Stage_occurs_before (stage b) (stage a)]) @ X,
           foldl double_minus (double_minus c (round_double (3/10)))
             (replicate (spec_order_violations ss) (round_double (3/10))))"
        "length X = spec_order_violations ss"
        using Cons.IH by blast
      have n: "spec_order_violations (a # ss) = Suc (spec_order_violations ss)"
        using True Cons by (simp add: spec_order_violations_def)
      show ?thesis
        using X True Cons unfolding n
        by (intro exI [of _ "Stage_occurs_before (stage b) (stage a) # X"]) simp
    next
      case False
      obtain X where X: "check_order ss (is, c) =
          (is @ X, foldl double_minus c
                     (replicate (spec_order_violations ss) (round_double (3/10))))"
        "length X = spec_order_violations ss"
        using Cons.IH by blast
      have n: "spec_order_violations (a # ss) = spec_order_violations ss"
        using False Cons by (simp add: spec_order_violations_def)
      show ?thesis
        using X False Cons unfolding n by (intro exI [of _ X]) simp
    qed
  qed
qed

lemma check_duration_spec:
  "\<exists>X. check_duration acc s =
         (fst acc @ X, foldl double_minus (snd acc) (spec_stage_penalties s)) \<and>
       length X = spec_negative_durations [s] + spec_long_durations [s]"
  by (cases "duration_from_previous s")
     (auto simp: check_duration_def spec_stage_penalties_def spec_negative_durations_def
        spec_long_durations_def Let_def)

lemma spec_durations_Cons:
  "spec_negative_durations (s # ss) = spec_negative_durations [s] + spec_negative_durations ss"
  "spec_long_durations (s # ss) = spec_long_durations [s] + spec_long_durations ss"
  by (simp_all add: spec_negative_durations_def spec_long_durations_def)

lemma fold_check_duration_spec:
  "\<exists>X. foldl check_duration acc ss =
         (fst acc @ X, foldl double_minus (snd acc) (concat (map spec_stage_penalties ss))) \<and>
       length X = spec_negative_durations ss + spec_long_durations ss"
proof (induction ss arbitrary: acc)
  case Nil
  show ?case by (simp add: spec_negative_durations_def spec_long_durations_def)
next
  case (Cons s ss)
  obtain X where X: "check_duration acc s =
         (fst acc @ X, foldl double_minus (snd acc) (spec_stage_penalties s))"
       "length X = spec_negative_durations [s] + spec_long_durations [s]"
    using check_duration_spec by blast
  obtain Y where Y: "foldl check_duration (check_duration acc s) ss =
         (fst (check_duration acc s) @ Y,
          foldl double_minus (snd (check_duration acc s)) (concat (map spec_stage_penalties ss)))"
       "length Y = spec_negative_durations ss + spec_long_durations ss"
    using Cons.IH by blast
  show ?case
    using X Y
    by (intro exI [of _ "X @ Y"]) (simp add: spec_durations_Cons [of s ss])
qed

lemma fold_check_cycle_spec:
  "\<exists>X. foldl check_cycle acc cs =
         (fst acc @ X,
          foldl double_minus (snd acc) (replicate (spec_long_cycles cs) (round_double (5/100)))) \<and>
       length X = spec_long_cycles cs"
proof (induction cs arbitrary: acc)
  case Nil
  show ?case by (simp add: spec_long_cycles_def)
next
  case (Cons c cs)
  obtain Y where Y: "foldl check_cycle (check_cycle acc c) cs =
         (fst (check_cycle acc c) @ Y,
          foldl double_minus (snd (check_cycle acc c))
            (replicate (spec_long_cycles cs) (round_double (5/100))))"
       "length Y = spec_long_cycles cs"
    using Cons.IH by blast
  show ?case
  proof (cases "duration_days c > 14")
    case True
    then have step: "check_cycle acc c =
        (fst acc @ [Review_cycle_took (cycle_number c) (duration_days c)],
         double_minus (snd acc) (round_double (5/100)))"
      by (simp add: check_cycle_def)
    have n: "spec_long_cycles (c # cs) = Suc (spec_long_cycles cs)"
      using True by (simp add: spec_long_cycles_def)
    have "foldl check_cycle acc (c # cs) =
            (fst acc @ Review_cycle_took (cycle_number c) (duration_days c) # Y,
             foldl double_minus (snd acc)
               (replicate (Suc (spec_long_cycles cs)) (round_double (5/100))))"
      using Y(1) by (simp add: step)
    then show ?thesis using Y(2) unfolding n
      by (intro exI [of _ "Review_cycle_took (cycle_number c) (duration_days c) # Y"]) simp
  next
    case False
    then have step: "check_cycle acc c = acc"
      by (simp add: check_cycle_def)
    have n: "spec_long_cycles (c # cs) = spec_long_cycles cs"
      using False by (simp add: spec_long_cycles_def)
    show ?thesis using Y unfolding n
      by (intro exI [of _ Y]) (simp add: step)
  qed
qed

lemma validate_acc:
  "\<exists>X. foldl check_cycle (foldl check_duration (check_order ss (prior, c)) ss) cs =
         (prior @ X, spec_confidence c ss cs) \<and>
       length (prior @ X) = spec_issue_count prior ss cs"
proof -
  obtain X where X: "check_order ss (prior, c) =
      (prior @ X,
       foldl double_minus c (replicate (spec_order_violations ss) (round_double (3/10))))"
      "length X = spec_order_violations ss"
    using check_order_spec by blast
  obtain Y where Y: "foldl check_duration (check_order ss (prior, c)) ss =
         (fst (check_order ss (prior, c)) @ Y,
          foldl double_minus (snd (check_order ss (prior, c)))
            (concat (map spec_stage_penalties ss)))"
       "length Y = spec_negative_durations ss + spec_long_durations ss"
    using fold_check_duration_spec by blast
  obtain Z where Z: "foldl check_cycle (foldl check_duration (check_order ss (prior, c)) ss) cs =
         (fst (foldl check_duration (check_order ss (prior, c)) ss) @ Z,
          foldl double_minus (snd (foldl check_duration (check_order ss (prior, c)) ss))
            (replicate (spec_long_cycles cs) (round_double (5/100))))"
       "length Z = spec_long_cycles cs"
    using fold_check_cycle_spec by blast
  show ?thesis
    using X Y Z
    by (intro exI [of _ "X @ Y @ Z"])
       (simp add: spec_confidence_def spec_penalties_def spec_issue_count_def)
qed

lemma validate_issues:
  "\<exists>X. issues (validateTimeline ss ev cs prior c) = prior @ X"
proof -
  obtain X where "foldl check_cycle (foldl check_duration (check_order ss (prior, c)) ss) cs =
       (prior @ X, spec_confidence c ss cs)"
    using validate_acc by blast
  then show ?thesis by (simp add: validateTimeline_def Let_def)
qed

lemma spec_penalties_nonneg: "\<forall>p \<in> set (spec_penalties ss cs). 0 \<le> p"
  by (auto simp: spec_penalties_def spec_stage_penalties_def round_double_nonneg
        split: option.splits if_splits)

text \<open>
  The penalties only lower the score: a prior score of at most \<open>K * 2^(-53)\<close>, a double
  between 1/2 and 1, gives a confidence of at most that.
\<close>

lemma validate_confidence_le:
  assumes "c \<le> of_int K * 2 powi (- 53)" and "2 ^ 52 \<le> K" "K < 2 ^ 53"
  shows "confidence_score (validateTimeline ss ev cs prior c) \<le> of_int K * 2 powi (- 53)"
proof -
  obtain X where "foldl check_cycle (foldl check_duration (check_order ss (prior, c)) ss) cs =
       (prior @ X, spec_confidence c ss cs)"
    using validate_acc by blast
  then have v: "confidence_score (validateTimeline ss ev cs prior c) =
      max 0 (min 1 (spec_confidence c ss cs))"
    by (simp add: validateTimeline_def Let_def)
  have le: "spec_confidence c ss cs \<le> of_int K * 2 powi (- 53)"
    unfolding spec_confidence_def
    using assms spec_penalties_nonneg by (rule fold_double_minus_below)
  have "0 \<le> of_int K * (2::rat) powi (- 53)" using assms(2) by simp
  then show ?thesis using le unfolding v by (auto simp: max_def min_def)
qed

lemma ms_jan: "ms (jan d) = 1704067200000 + (int d - 1) * 86400000"
  by (simp add: jan_def)

lemma thresholds:
  "0 < round_double (8/10)" "round_double (8/10) \<le> 1"
  "0 < round_double (6/10)" "round_double (6/10) \<le> 1"
  "0 < round_double (5/10)" "round_double (5/10) \<le> 1"
  unfolding double_0_8 double_0_6 double_0_5 by (simp_all add: power_int_minus)

lemma spec_stage_penalties_counts:
  "length (filter (\<lambda>p. p = round_double (2/10)) (concat (map spec_stage_penalties ss))) =
     spec_negative_durations ss \<and>
   length (filter (\<lambda>p. p = round_double (1/10)) (concat (map spec_stage_penalties ss))) =
     spec_long_durations ss \<and>
   length (concat (map spec_stage_penalties ss)) =
     spec_negative_durations ss + spec_long_durations ss"
proof (induction ss)
  case Nil
  show ?case by (simp add: spec_negative_durations_def spec_long_durations_def)
next
  case (Cons s ss)
  have ne: "round_double (2/10) \<noteq> round_double (1/10)"
    unfolding double_0_2 double_0_1 by simp
  have s: "length (filter (\<lambda>p. p = round_double (2/10)) (spec_stage_penalties s)) =
             spec_negative_durations [s]"
    "length (filter (\<lambda>p. p = round_double (1/10)) (spec_stage_penalties s)) =
             spec_long_durations [s]"
    "length (spec_stage_penalties s) = spec_negative_durations [s] + spec_long_durations [s]"
    using ne ne [symmetric]
    by (auto simp: spec_stage_penalties_def spec_negative_durations_def spec_long_durations_def
          split: option.splits)
  show ?case
    using Cons.IH s by (simp add: spec_durations_Cons [of s ss])
qed

text \<open>
  C3. For every input, \<open>validateTimeline\<close> subtracts 0.3 for each adjacent stage pair
  whose later timestamp precedes the earlier one, 0.2 for each stage with a negative
  \<open>duration_from_previous\<close>, 0.1 for each stage whose \<open>duration_from_previous\<close> is over
  30 days and 0.05 for each review cycle of more than 14 days, one subtraction of
  doubles after the other in that order, and clamps the result to the interval from 0
  to 1; it keeps the prior issues and adds one issue for each penalty; \<open>data_quality\<close>
  is \<open>high\<close> when the confidence is at least 0.8 and there is no issue, otherwise
  \<open>medium\<close> when the confidence is at least 0.6 and there are at most 2 issues,
  otherwise \<open>low\<close>; \<open>is_valid\<close> holds exactly when the confidence is at least 0.5 and
  there are fewer than 5 issues. At one order violation and one negative duration the
  confidence is 1 - 0.3 - 0.2, in doubles 0.49999999999999994, below 0.5.
\<close>

theorem validateTimeline_penalties:
  "let v = validateTimeline ss ev cs prior c;
       n = spec_issue_count prior ss cs
   in confidence_score v = max 0 (min 1 (spec_confidence c ss cs)) \<and>
      spec_confidence c ss cs =
        foldl double_minus c
          (replicate (spec_order_violations ss) (round_double (3/10)) @
           concat (map spec_stage_penalties ss) @
           replicate (spec_long_cycles cs) (round_double (5/100))) \<and>
      length (filter (\<lambda>p. p = round_double (2/10)) (concat (map spec_stage_penalties ss))) =
        spec_negative_durations ss \<and>
      length (filter (\<lambda>p. p = round_double (1/10)) (concat (map spec_stage_penalties ss))) =
        spec_long_durations ss \<and>
      length (concat (map spec_stage_penalties ss)) =
        spec_negative_durations ss + spec_long_durations ss \<and>
      0 \<le> confidence_score v \<and> confidence_score v \<le> 1 \<and>
      length (issues v) = n \<and>
      take (length prior) (issues v) = prior \<and>
      data_quality v =
        (if confidence_score v \<ge> round_double (8/10) \<and> n = 0 then high
         else if confidence_score v \<ge> round_double (6/10) \<and> n \<le> 2 then medium
         else low) \<and>
      is_valid v = (confidence_score v \<ge> round_double (5/10) \<and> n < 5)"
proof -
  define a where "a = spec_confidence c ss cs"
  define n where "n = spec_issue_count prior ss cs"
  define t8 where "t8 = round_double (8/10)"
  define t6 where "t6 = round_double (6/10)"
  define t5 where "t5 = round_double (5/10)"
  have t: "0 < t8" "t8 \<le> 1" "0 < t6" "t6 \<le> 1" "0 < t5" "t5 \<le> 1"
    using thresholds by (simp_all add: t8_def t6_def t5_def)
  obtain X where X:
    "foldl check_cycle (foldl check_duration (check_order ss (prior, c)) ss) cs = (prior @ X, a)"
    "length (prior @ X) = n"
    using validate_acc unfolding a_def n_def by blast
  have v: "validateTimeline ss ev cs prior c =
      \<lparr>is_valid = (a \<ge> t5 \<and> n < 5),
       confidence_score = max 0 (min 1 a),
       issues = prior @ X,
       data_quality = (if a \<ge> t8 \<and> n = 0 then high
                       else if a \<ge> t6 \<and> n \<le> 2 then medium else low)\<rparr>"
    unfolding validateTimeline_def Let_def X fst_conv snd_conv t8_def t6_def t5_def
    using X(2) by (simp del: length_append)
  have "confidence_score (validateTimeline ss ev cs prior c) = max 0 (min 1 a)"
    "length (issues (validateTimeline ss ev cs prior c)) = n"
    "take (length prior) (issues (validateTimeline ss ev cs prior c)) = prior"
    using X(2) by (simp_all add: v del: length_append)
  moreover have "data_quality (validateTimeline ss ev cs prior c) =
      (if max 0 (min 1 a) \<ge> t8 \<and> n = 0 then high
       else if max 0 (min 1 a) \<ge> t6 \<and> n \<le> 2 then medium else low)"
    unfolding v using t by (auto simp: max_def min_def)
  moreover have "is_valid (validateTimeline ss ev cs prior c) =
      (max 0 (min 1 a) \<ge> t5 \<and> n < 5)"
    unfolding v using t by (auto simp: max_def min_def)
  moreover have "0 \<le> max 0 (min 1 a)" "max 0 (min 1 a) \<le> 1"
    by (auto simp: max_def min_def)
  moreover have "a =
        foldl double_minus c
          (replicate (spec_order_violations ss) (round_double (3/10)) @
           concat (map spec_stage_penalties ss) @
           replicate (spec_long_cycles cs) (round_double (5/100)))"
    by (simp add: a_def spec_confidence_def spec_penalties_def)
  ultimately show ?thesis
    unfolding Let_def a_def [symmetric] n_def [symmetric] t8_def [symmetric]
      t6_def [symmetric] t5_def [symmetric]
    using spec_stage_penalties_counts [of ss] by simp
qed

theorem validateTimeline_penalties_witness:
  "confidence_score (validateTimeline disordered_stages [] [] [] 1) =
     9007199254740991 / 18014398509481984 \<and>
   length (issues (validateTimeline disordered_stages [] [] [] 1)) = 2 \<and>
   data_quality (validateTimeline disordered_stages [] [] [] 1) = low \<and>
   \<not> is_valid (validateTimeline disordered_stages [] [] [] 1)"
proof -
  have p: "spec_penalties disordered_stages [] = [round_double (3/10), round_double (2/10)]"
    by (simp add: spec_penalties_def spec_stage_penalties_def spec_order_violations_def
          spec_long_cycles_def disordered_stages_def ms_jan)
  have c: "spec_confidence 1 disordered_stages [] = 9007199254740991 / 18014398509481984"
    unfolding spec_confidence_def p
    by (simp only: foldl_Cons foldl_Nil double_1_minus_0_3 double_0_7_minus_0_2)
  have n: "spec_issue_count [] disordered_stages [] = 2"
    by (simp add: spec_issue_count_def spec_order_violations_def spec_negative_durations_def
          spec_long_durations_def spec_long_cycles_def disordered_stages_def ms_jan)
  have m: "max 0 (min 1 (9007199254740991 / 18014398509481984 :: rat)) =
           9007199254740991 / 18014398509481984"
    by simp
  have t: "\<not> round_double (6/10) \<le> (9007199254740991 / 18014398509481984 :: rat)"
          "\<not> round_double (8/10) \<le> (9007199254740991 / 18014398509481984 :: rat)"
          "\<not> round_double (5/10) \<le> (9007199254740991 / 18014398509481984 :: rat)"
    unfolding double_0_6 double_0_8 double_0_5 by (simp_all add: power_int_minus)
  show ?thesis
    using validateTimeline_penalties [of disordered_stages "[]" "[]" "[]" 1] t
    unfolding Let_def c n m by simp
qed

section \<open>Properties of the walk and of the stages\<close>

lemmas walk_defs = review_step_def note_approval_def note_changes_requested_def
  note_first_review_def Let_def

lemma step_cycles:
  "w_reviewCycles (review_step pr srt w r) =
     w_reviewCycles w @
       (if review_state r = State_changes_requested then [cycle_of pr srt (currentCycle w + 1) r] else [])"
  by (simp add: walk_defs cycle_of_def)

lemma step_stages:
  "w_stages (review_step pr srt w r) =
     w_stages w @
       (if firstReviewFound w then []
        else [\<lparr>stage = first_review, timestamp = submitted_at r,
               duration_from_previous = Some (calculateDaysDiff (created_at pr) (submitted_at r))\<rparr>])"
  by (simp add: walk_defs)

lemma step_found: "firstReviewFound (review_step pr srt w r)"
  by (simp add: walk_defs)

lemma step_last_request:
  "lastChangesRequestedTime (review_step pr srt w r) =
     (if review_state r = State_changes_requested then Some (submitted_at r)
      else lastChangesRequestedTime w)"
  by (simp add: walk_defs)

lemma walk_stages:
  "w_stages (foldl (review_step pr srt) w rs) =
     w_stages w @
       (if firstReviewFound w \<or> rs = [] then []
        else [\<lparr>stage = first_review, timestamp = submitted_at (hd rs),
               duration_from_previous =
                 Some (calculateDaysDiff (created_at pr) (submitted_at (hd rs)))\<rparr>])"
proof (induction rs arbitrary: w)
  case Nil
  show ?case by simp
next
  case (Cons r rs)
  show ?case by (simp add: Cons.IH step_stages step_found)
qed

lemma walk_cycles_inv:
  assumes "\<forall>c \<in> set (w_reviewCycles w). P c"
    and "\<And>n r. r \<in> set rs \<Longrightarrow> review_state r = State_changes_requested \<Longrightarrow> P (cycle_of pr srt n r)"
  shows "\<forall>c \<in> set (w_reviewCycles (foldl (review_step pr srt) w rs)). P c"
  using assms
proof (induction rs arbitrary: w)
  case Nil
  then show ?case by simp
next
  case (Cons r rs)
  have "\<forall>c \<in> set (w_reviewCycles (review_step pr srt w r)). P c"
    using Cons.prems by (auto simp: step_cycles)
  then show ?case
    using Cons.IH [of "review_step pr srt w r"] Cons.prems(2) by simp
qed

lemma walk_request_inv:
  assumes "lastChangesRequestedTime w = None \<longleftrightarrow> w_reviewCycles w = []"
  shows "lastChangesRequestedTime (foldl (review_step pr srt) w rs) = None \<longleftrightarrow>
         w_reviewCycles (foldl (review_step pr srt) w rs) = []"
  using assms
proof (induction rs arbitrary: w)
  case Nil
  then show ?case by simp
next
  case (Cons r rs)
  have "lastChangesRequestedTime (review_step pr srt w r) = None \<longleftrightarrow>
        w_reviewCycles (review_step pr srt w r) = []"
    using Cons.prems by (simp add: step_cycles step_last_request)
  then show ?case using Cons.IH by simp
qed

lemma walk_requests:
  "map changes_requested_at (w_reviewCycles (foldl (review_step pr srt) w rs)) =
     map changes_requested_at (w_reviewCycles w) @
     map submitted_at (filter (\<lambda>r. review_state r = State_changes_requested) rs)"
  by (induction rs arbitrary: w) (simp_all add: step_cycles cycle_of_def)

lemma timeline_fields:
  "review_cycles (fst (calculateEnhancedPRTimeline now pr rs cs)) = w_reviewCycles (the_walk pr rs)"
  "stages (fst (calculateEnhancedPRTimeline now pr rs cs)) =
     fst (merged_phase pr (fst (approved_phase pr (lastApprovalTime (the_walk pr rs))
        (fst (comments_fixed_phase pr (the_walk pr rs))))) (w_events (the_walk pr rs)))"
  "is_completed (fst (calculateEnhancedPRTimeline now pr rs cs)) = (status pr \<noteq> Status_open)"
  "snd (calculateEnhancedPRTimeline now pr rs cs) = sort_key (\<lambda>r. ms (submitted_at r)) rs"
  "validation (fst (calculateEnhancedPRTimeline now pr rs cs)) =
     validateTimeline (stages (fst (calculateEnhancedPRTimeline now pr rs cs)))
       (actual_events (fst (calculateEnhancedPRTimeline now pr rs cs)))
       (review_cycles (fst (calculateEnhancedPRTimeline now pr rs cs)))
       (fst (snd (snd (comments_fixed_phase pr (the_walk pr rs)))))
       (snd (snd (snd (comments_fixed_phase pr (the_walk pr rs)))))"
  by (simp_all add: calculateEnhancedPRTimeline_def the_walk_def Let_def, cases "status pr", simp_all)

lemma find_changes_later:
  assumes "findChangesAddressedTime pr t srt = Some t'"
  shows "ms t < ms t'"
proof (cases "filter (\<lambda>review. ms (submitted_at review) > ms t \<and>
                      (review_state review = State_approved \<or>
                       review_state review = State_commented)) srt")
  case Nil
  then show ?thesis using assms
    by (simp add: findChangesAddressedTime_def split: if_splits)
next
  case (Cons r rest)
  then have "r \<in> set (filter (\<lambda>review. ms (submitted_at review) > ms t \<and>
                      (review_state review = State_approved \<or>
                       review_state review = State_commented)) srt)"
    by simp
  then have "ms t < ms (submitted_at r)" by simp
  then show ?thesis using assms Cons by (simp add: findChangesAddressedTime_def)
qed

lemma the_walk_stages:
  "w_stages (the_walk pr rs) =
     \<lparr>stage = pr_raised, timestamp = created_at pr, duration_from_previous = None\<rparr> #
     (if rs = [] then []
      else [\<lparr>stage = first_review,
              timestamp = submitted_at (hd (sort_key (\<lambda>r. ms (submitted_at r)) rs)),
              duration_from_previous =
                Some (calculateDaysDiff (created_at pr)
                        (submitted_at (hd (sort_key (\<lambda>r. ms (submitted_at r)) rs))))\<rparr>])"
proof -
  have "sort_key (\<lambda>r. ms (submitted_at r)) rs = [] \<longleftrightarrow> rs = []"
    by (metis length_sort length_0_conv)
  then show ?thesis
    by (simp add: the_walk_def Let_def walk_stages initial_walk_def)
qed

lemma the_walk_request:
  "lastChangesRequestedTime (the_walk pr rs) = None \<longleftrightarrow> w_reviewCycles (the_walk pr rs) = []"
  unfolding the_walk_def Let_def
  by (rule walk_request_inv) (simp add: initial_walk_def)

lemma the_walk_cycles_inv:
  assumes "\<And>n r. r \<in> set rs \<Longrightarrow> review_state r = State_changes_requested \<Longrightarrow>
             P (cycle_of pr (sort_key (\<lambda>r. ms (submitted_at r)) rs) n r)"
  shows "\<forall>c \<in> set (w_reviewCycles (the_walk pr rs)). P c"
  unfolding the_walk_def Let_def
  by (rule walk_cycles_inv) (simp_all add: initial_walk_def assms)

lemma approved_phase_set:
  "s \<in> set (fst (approved_phase pr la xs)) \<Longrightarrow> s \<in> set xs \<or> stage s = approved"
  by (auto simp: approved_phase_def Let_def split: option.splits if_splits)

lemma merged_phase_set:
  "s \<in> set (fst (merged_phase pr xs ev)) \<Longrightarrow> s \<in> set xs \<or> stage s = merged"
  by (auto simp: merged_phase_def Let_def split: option.splits)

lemma the_walk_stage_names:
  "s \<in> set (w_stages (the_walk pr rs)) \<Longrightarrow> stage s = pr_raised \<or> stage s = first_review"
  by (auto simp: the_walk_stages split: if_splits)

lemma approved_phase_prefix: "\<exists>ys. fst (approved_phase pr la xs) = xs @ ys"
  by (auto simp: approved_phase_def Let_def split: option.splits)

lemma merged_phase_prefix: "\<exists>ys. fst (merged_phase pr xs ev) = xs @ ys"
  by (auto simp: merged_phase_def Let_def split: option.splits)

lemma comments_fixed_phase_prefix: "\<exists>ys. fst (comments_fixed_phase pr w) = w_stages w @ ys"
  by (auto simp: comments_fixed_phase_def Let_def split: option.splits)

lemma stages_prefix:
  "\<exists>ys. stages (fst (calculateEnhancedPRTimeline now pr rs cs)) = w_stages (the_walk pr rs) @ ys"
proof -
  define f where "f = fst (comments_fixed_phase pr (the_walk pr rs))"
  define g where "g = fst (approved_phase pr (lastApprovalTime (the_walk pr rs)) f)"
  define h where "h = fst (merged_phase pr g (w_events (the_walk pr rs)))"
  obtain a where a: "f = w_stages (the_walk pr rs) @ a"
    unfolding f_def using comments_fixed_phase_prefix by blast
  obtain b where b: "g = f @ b"
    unfolding g_def using approved_phase_prefix by blast
  obtain c where c: "h = g @ c"
    unfolding h_def using merged_phase_prefix by blast
  have "stages (fst (calculateEnhancedPRTimeline now pr rs cs)) = h"
    by (simp add: timeline_fields h_def g_def f_def)
  then show ?thesis using a b c by simp
qed

lemma stages_from_phase:
  assumes "s \<in> set (stages (fst (calculateEnhancedPRTimeline now pr rs cs)))"
    and "stage s = comments_fixed"
  shows "s \<in> set (fst (comments_fixed_phase pr (the_walk pr rs)))"
  using assms unfolding timeline_fields
  by (auto dest!: merged_phase_set approved_phase_set)

lemma cycle_resolution:
  "\<forall>c \<in> set (review_cycles (fst (calculateEnhancedPRTimeline now pr rs cs))).
     changes_addressed_at c =
       findChangesAddressedTime pr (changes_requested_at c) (sort_key (\<lambda>r. ms (submitted_at r)) rs)"
  unfolding timeline_fields
  by (rule the_walk_cycles_inv) (simp add: cycle_of_def)

lemma unresolved_phase:
  assumes "w_reviewCycles (the_walk pr rs) \<noteq> []"
    and "changes_addressed_at (last (w_reviewCycles (the_walk pr rs))) = None"
  shows "comments_fixed_phase pr (the_walk pr rs) =
           (w_stages (the_walk pr rs), 0, [no_clear_resolution],
            double_minus 1 (round_double (2/10)))"
  using assms the_walk_request [of pr rs]
  by (simp add: comments_fixed_phase_def Let_def)

lemma sorted_hd_le:
  assumes "r \<in> set rs"
  shows "ms (submitted_at (hd (sort_key (\<lambda>r. ms (submitted_at r)) rs))) \<le> ms (submitted_at r)"
proof -
  define srt where "srt = sort_key (\<lambda>r. ms (submitted_at r)) rs"
  have s: "sorted (map (\<lambda>r. ms (submitted_at r)) srt)" unfolding srt_def by (rule sorted_sort_key)
  have m: "r \<in> set srt" using assms unfolding srt_def by simp
  then obtain x xs where c: "srt = x # xs" by (cases srt) auto
  then have "\<forall>y \<in> set xs. ms (submitted_at x) \<le> ms (submitted_at y)" using s by simp
  then have "ms (submitted_at x) \<le> ms (submitted_at r)" using m c by auto
  then show ?thesis unfolding srt_def [symmetric] c by simp
qed

lemma whole_days:
  assumes "ms e - ms s = k * 86400000"
  shows "calculateDaysDiff s e = of_int k"
proof -
  have "of_int (ms e - ms s) / (1000 * 60 * 60 * 24) * 10 + (1/2 :: rat) = of_int (10 * k) + 1/2"
    unfolding assms by simp
  moreover have "\<lfloor>of_int (10 * k) + (1/2 :: rat)\<rfloor> = 10 * k"
    by (subst floor_unique [of "10 * k"]) simp_all
  ultimately show ?thesis by (simp add: calculateDaysDiff_def)
qed

lemma jan_diff: "calculateDaysDiff (jan a) (jan b) = of_int (int b - int a)"
  by (rule whole_days) (simp add: jan_def algebra_simps)

lemmas timeline_defs =
  calculateEnhancedPRTimeline_def walk_defs initial_walk_def comments_fixed_phase_def
  approved_phase_def merged_phase_def baseTime_comments_fixed_def baseTime_approved_def
  baseTime_merged_def find_stage_def findChangesAddressedTime_def mk_pr_def mk_review_def

lemma scenario_A_eval:
  "scenario_A_stages =
     [\<lparr>stage = pr_raised, timestamp = jan 1, duration_from_previous = None\<rparr>,
      \<lparr>stage = first_review, timestamp = jan 3, duration_from_previous = Some 2\<rparr>,
      \<lparr>stage = approved, timestamp = jan 3, duration_from_previous = Some 0\<rparr>]"
  by (simp add: scenario_A_stages_def scenario_A_pr_def timeline_defs jan_diff)

lemma scenario_B_eval:
  "scenario_B_stages =
     [\<lparr>stage = pr_raised, timestamp = jan 1, duration_from_previous = None\<rparr>,
      \<lparr>stage = first_review, timestamp = jan 2, duration_from_previous = Some 1\<rparr>,
      \<lparr>stage = comments_fixed, timestamp = jan 5, duration_from_previous = Some 3\<rparr>,
      \<lparr>stage = approved, timestamp = jan 6, duration_from_previous = Some 1\<rparr>,
      \<lparr>stage = merged, timestamp = jan 7, duration_from_previous = Some 1\<rparr>]"
  by (simp add: scenario_B_stages_def scenario_B_pr_def scenario_B_reviews_def timeline_defs
        jan_diff ms_jan)

lemma unresolved_eval:
  "review_cycles unresolved_timeline =
     [\<lparr>cycle_number = 1, changes_requested_at = jan 3, changes_addressed_at = None,
       duration_days = 0, reviewer = js ''bob''\<rparr>]"
  "stages unresolved_timeline =
     [\<lparr>stage = pr_raised, timestamp = jan 1, duration_from_previous = None\<rparr>,
      \<lparr>stage = first_review, timestamp = jan 3, duration_from_previous = Some 2\<rparr>]"
  by (simp_all add: unresolved_timeline_def unresolved_pr_def timeline_defs jan_diff ms_jan)

lemma slow_fix_eval:
  "review_cycles slow_fix_timeline =
     [\<lparr>cycle_number = 1, changes_requested_at = jan 2, changes_addressed_at = Some (jan 20),
       duration_days = 18, reviewer = js ''bob''\<rparr>]"
  by (simp add: slow_fix_timeline_def timeline_defs jan_diff ms_jan)


section \<open>Properties of the reconstruction\<close>

text \<open>
  C1, as the specification states it: a pull request with no review and no comment has
  exactly one stage. A pull request that was merged without a review has two, since
  the merge block adds the \<open>merged\<close> stage whenever \<open>merged_at\<close> is set.
\<close>

theorem unreviewed_merged_pr_counterexample:
  "map stage (stages (fst (calculateEnhancedPRTimeline (jan 9) merged_unreviewed_pr [] []))) =
     [pr_raised, merged] \<and>
   length (stages (fst (calculateEnhancedPRTimeline (jan 9) merged_unreviewed_pr [] []))) = 2"
  by (simp add: merged_unreviewed_pr_def timeline_defs)


text \<open>
  C1, amended: for every pull request with no review and no comment the stages are
  \<open>pr_raised\<close> at the creation timestamp, followed by \<open>merged\<close> at the merge timestamp
  exactly when the pull request has a merge timestamp; so there is exactly one stage
  when \<open>merged_at\<close> is null. \<open>is_completed\<close> equals \<open>status \<noteq> open\<close>.
\<close>

theorem no_reviews_timeline:
  "stages (fst (calculateEnhancedPRTimeline now pr [] [])) =
     \<lparr>stage = pr_raised, timestamp = created_at pr, duration_from_previous = None\<rparr> #
     (case merged_at pr of
        None \<Rightarrow> []
      | Some m \<Rightarrow> [\<lparr>stage = merged, timestamp = m,
                      duration_from_previous = Some (calculateDaysDiff (created_at pr) m)\<rparr>]) \<and>
   is_completed (fst (calculateEnhancedPRTimeline now pr [] [])) = (status pr \<noteq> Status_open)"
  by (simp add: timeline_fields the_walk_def initial_walk_def comments_fixed_phase_def
      approved_phase_def merged_phase_def baseTime_merged_def find_stage_def Let_def
      split: option.splits)


text \<open>
  C2. Scenario B: for a pull request created on 2024-01-01 and merged on 2024-01-07,
  with reviews \<open>changes_requested\<close> on 2024-01-02, \<open>commented\<close> on 2024-01-05 and
  \<open>approved\<close> on 2024-01-06, there is exactly one review cycle and it lasts 3 days;
  the stages are \<open>pr_raised\<close>, \<open>first_review\<close>, \<open>comments_fixed\<close> on 2024-01-05,
  \<open>approved\<close> on 2024-01-06 and \<open>merged\<close> on 2024-01-07; \<open>approved_to_merged\<close> is 1.
  The other fields of the pull request and of the reviews are arbitrary.
\<close>

theorem scenario_B_reconstruction:
  "let t = fst (calculateEnhancedPRTimeline now
                  (pr\<lparr>created_at := jan 1, merged_at := Some (jan 7)\<rparr>)
                  [r1\<lparr>review_state := State_changes_requested, submitted_at := jan 2\<rparr>,
                   r2\<lparr>review_state := State_commented, submitted_at := jan 5\<rparr>,
                   r3\<lparr>review_state := State_approved, submitted_at := jan 6\<rparr>] cs)
   in map duration_days (review_cycles t) = [3] \<and>
      map (\<lambda>s. (stage s, timestamp s)) (stages t) =
        [(pr_raised, jan 1), (first_review, jan 2), (comments_fixed, jan 5),
         (approved, jan 6), (merged, jan 7)] \<and>
      approved_to_merged (stage_durations t) = 1"
  by (simp add: timeline_defs jan_diff ms_jan)


text \<open>
  C4. The cycles are the \<open>changes_requested\<close> reviews in sorted order. For a cycle with
  no review submitted after the request whose state is \<open>approved\<close> or \<open>commented\<close>,
  \<open>changes_addressed_at\<close> is the last-updated timestamp of the pull request if that
  timestamp is strictly after the request, and null otherwise. When the last cycle has
  no resolution, no \<open>comments_fixed\<close> stage is emitted, and the validator starts from
  the issue "Changes were requested but no clear resolution detected" and a confidence
  of 1 - 0.2, so that the issue is among the issues of the result and the confidence is
  at most 0.8 (the doubles: 1 - 0.2 is 0.8).
\<close>

theorem unresolved_cycle_fallback:
  "let srt = sort_key (\<lambda>r. ms (submitted_at r)) rs;
       t = fst (calculateEnhancedPRTimeline now pr rs cs)
   in map changes_requested_at (review_cycles t) =
        map submitted_at (filter (\<lambda>r. review_state r = State_changes_requested) srt) \<and>
      (\<forall>c \<in> set (review_cycles t).
         filter (\<lambda>r. ms (submitted_at r) > ms (changes_requested_at c) \<and>
                     (review_state r = State_approved \<or> review_state r = State_commented)) srt = []
         \<longrightarrow> changes_addressed_at c =
               (if ms (updated_at pr) > ms (changes_requested_at c) then Some (updated_at pr)
                else None)) \<and>
      (review_cycles t \<noteq> [] \<and> changes_addressed_at (last (review_cycles t)) = None \<longrightarrow>
         find_stage comments_fixed (stages t) = None \<and>
         validation t =
           validateTimeline (stages t) (actual_events t) (review_cycles t)
             [no_clear_resolution] (double_minus 1 (round_double (2/10))) \<and>
         no_clear_resolution \<in> set (issues (validation t)) \<and>
         confidence_score (validation t) \<le> round_double (8/10))"
proof -
  define srt where "srt = sort_key (\<lambda>r. ms (submitted_at r)) rs"
  define t where "t = fst (calculateEnhancedPRTimeline now pr rs cs)"
  have req: "map changes_requested_at (review_cycles t) =
        map submitted_at (filter (\<lambda>r. review_state r = State_changes_requested) srt)"
    unfolding t_def srt_def timeline_fields the_walk_def Let_def
    by (simp add: walk_requests initial_walk_def)
  have fb: "\<forall>c \<in> set (review_cycles t).
         filter (\<lambda>r. ms (submitted_at r) > ms (changes_requested_at c) \<and>
                     (review_state r = State_approved \<or> review_state r = State_commented)) srt = []
         \<longrightarrow> changes_addressed_at c =
               (if ms (updated_at pr) > ms (changes_requested_at c) then Some (updated_at pr)
                else None)"
    using cycle_resolution [of now pr rs cs] unfolding t_def srt_def
    by (simp add: findChangesAddressedTime_def)
  have un: "find_stage comments_fixed (stages t) = None \<and>
         validation t =
           validateTimeline (stages t) (actual_events t) (review_cycles t)
             [no_clear_resolution] (double_minus 1 (round_double (2/10))) \<and>
         no_clear_resolution \<in> set (issues (validation t)) \<and>
         confidence_score (validation t) \<le> round_double (8/10)"
    if a: "review_cycles t \<noteq> []" and b: "changes_addressed_at (last (review_cycles t)) = None"
  proof -
    have ph: "comments_fixed_phase pr (the_walk pr rs) =
           (w_stages (the_walk pr rs), 0, [no_clear_resolution],
            double_minus 1 (round_double (2/10)))"
      using a b unfolding t_def timeline_fields by (rule unresolved_phase)
    have "\<not> (\<exists>s. s \<in> set (stages t) \<and> stage s = comments_fixed)"
    proof
      assume "\<exists>s. s \<in> set (stages t) \<and> stage s = comments_fixed"
      then obtain s where s: "s \<in> set (stages t)" "stage s = comments_fixed" by blast
      then have "s \<in> set (fst (comments_fixed_phase pr (the_walk pr rs)))"
        unfolding t_def by (rule stages_from_phase)
      then have "s \<in> set (w_stages (the_walk pr rs))" by (simp add: ph)
      then show False using s(2) the_walk_stage_names by fastforce
    qed
    then have 1: "find_stage comments_fixed (stages t) = None"
      by (simp add: find_stage_def find_None_iff)
    have 2: "validation t =
           validateTimeline (stages t) (actual_events t) (review_cycles t)
             [no_clear_resolution] (double_minus 1 (round_double (2/10)))"
      unfolding t_def by (subst timeline_fields(5)) (simp add: ph)
    obtain X where "issues (validation t) = [no_clear_resolution] @ X"
      unfolding 2 using validate_issues by blast
    then have 3: "no_clear_resolution \<in> set (issues (validation t))" by simp
    have 4: "confidence_score (validation t) \<le> round_double (8/10)"
      unfolding 2
      unfolding double_1_minus_0_2 double_0_8
      by (rule validate_confidence_le) (simp_all add: double_0_8 [symmetric])
    show ?thesis using 1 2 3 4 by simp
  qed
  show ?thesis
    unfolding Let_def srt_def [symmetric] t_def [symmetric]
    using req fb un by blast
qed

theorem unresolved_cycle_fallback_witness:
  "review_cycles unresolved_timeline \<noteq> [] \<and>
   last (review_cycles unresolved_timeline) \<in> set (review_cycles unresolved_timeline) \<and>
   filter (\<lambda>r. ms (submitted_at r) > ms (changes_requested_at (last (review_cycles unresolved_timeline))) \<and>
               (review_state r = State_approved \<or> review_state r = State_commented))
     (sort_key (\<lambda>r. ms (submitted_at r)) [mk_review 1 State_changes_requested (jan 3)]) = [] \<and>
   \<not> ms (updated_at unresolved_pr) > ms (changes_requested_at (last (review_cycles unresolved_timeline))) \<and>
   changes_addressed_at (last (review_cycles unresolved_timeline)) = None \<and>
   find_stage comments_fixed (stages unresolved_timeline) = None \<and>
   no_clear_resolution \<in> set (issues (validation unresolved_timeline)) \<and>
   confidence_score (validation unresolved_timeline) \<le> round_double (8/10)"
proof -
  have a: "review_cycles unresolved_timeline \<noteq> []"
    "changes_addressed_at (last (review_cycles unresolved_timeline)) = None"
    "last (review_cycles unresolved_timeline) \<in> set (review_cycles unresolved_timeline)"
    "\<not> ms (updated_at unresolved_pr) > ms (changes_requested_at (last (review_cycles unresolved_timeline)))"
    by (simp_all add: unresolved_eval unresolved_pr_def mk_pr_def ms_jan)
  have b: "filter (\<lambda>r. ms (submitted_at r) > ms (changes_requested_at (last (review_cycles unresolved_timeline))) \<and>
               (review_state r = State_approved \<or> review_state r = State_commented))
     (sort_key (\<lambda>r. ms (submitted_at r)) [mk_review 1 State_changes_requested (jan 3)]) = []"
    by (simp add: mk_review_def)
  show ?thesis
    using unresolved_cycle_fallback [of "[mk_review 1 State_changes_requested (jan 3)]" "jan 9" unresolved_pr "[]"] a b
    unfolding Let_def unresolved_timeline_def [symmetric]
    by blast
qed


text \<open>
  C5, as the specification states it: no stage duration is computed from a timestamp
  to itself. In scenario A the approving review is the first review: the anchor of the
  \<open>approved\<close> stage is the timestamp of \<open>first_review\<close>, which is the timestamp of
  the \<open>approved\<close> stage itself.
\<close>

theorem approved_anchor_counterexample:
  "map stage scenario_A_stages = [pr_raised, first_review, approved] \<and>
   baseTime_approved scenario_A_pr (take 2 scenario_A_stages) = timestamp (scenario_A_stages ! 2) \<and>
   duration_from_previous (scenario_A_stages ! 2) =
     Some (calculateDaysDiff (timestamp (scenario_A_stages ! 2)) (timestamp (scenario_A_stages ! 2)))"
  by (simp add: scenario_A_eval baseTime_approved_def find_stage_def jan_diff)


text \<open>
  C5, amended: the duration of the \<open>comments_fixed\<close> stage is never computed from a
  timestamp to itself. When the stage is emitted there is a review, its anchor is the
  timestamp of the earliest review (the \<open>first_review\<close> stage), its duration is the
  difference in days from that anchor, and the anchor is strictly earlier than the
  timestamp of the stage.
\<close>

theorem comments_fixed_anchor_earlier:
  "let srt = sort_key (\<lambda>r. ms (submitted_at r)) rs;
       t = fst (calculateEnhancedPRTimeline now pr rs cs)
   in \<forall>s \<in> set (stages t). stage s = comments_fixed \<longrightarrow>
        srt \<noteq> [] \<and>
        baseTime_comments_fixed pr (stages t) = submitted_at (hd srt) \<and>
        duration_from_previous s = Some (calculateDaysDiff (submitted_at (hd srt)) (timestamp s)) \<and>
        ms (submitted_at (hd srt)) < ms (timestamp s)"
proof -
  define srt where "srt = sort_key (\<lambda>r. ms (submitted_at r)) rs"
  define t where "t = fst (calculateEnhancedPRTimeline now pr rs cs)"
  define w where "w = the_walk pr rs"
  have goal: "srt \<noteq> [] \<and>
        baseTime_comments_fixed pr (stages t) = submitted_at (hd srt) \<and>
        duration_from_previous s = Some (calculateDaysDiff (submitted_at (hd srt)) (timestamp s)) \<and>
        ms (submitted_at (hd srt)) < ms (timestamp s)"
    if s: "s \<in> set (stages t)" "stage s = comments_fixed" for s
  proof -
    have in_phase: "s \<in> set (fst (comments_fixed_phase pr w))"
      using s unfolding t_def w_def by (rule stages_from_phase)
    have not_walk: "s \<notin> set (w_stages w)"
      using s(2) the_walk_stage_names [of s pr rs] unfolding w_def by auto
    have ne: "w_reviewCycles w \<noteq> []"
      using in_phase not_walk by (auto simp: comments_fixed_phase_def Let_def split: if_splits)
    obtain t' where t': "changes_addressed_at (last (w_reviewCycles w)) = Some t'"
      using in_phase not_walk
      by (auto simp: comments_fixed_phase_def Let_def split: if_splits option.splits)
    have s_eq: "s = \<lparr>stage = comments_fixed, timestamp = t',
          duration_from_previous =
            Some (calculateDaysDiff (baseTime_comments_fixed pr (w_stages w)) t')\<rparr>"
      using in_phase not_walk t'
      by (auto simp: comments_fixed_phase_def Let_def split: if_splits)
    have inv: "\<forall>c \<in> set (w_reviewCycles w). \<forall>u. changes_addressed_at c = Some u \<longrightarrow>
                 (\<exists>r \<in> set rs. ms (submitted_at r) < ms u)"
      unfolding w_def
      by (rule the_walk_cycles_inv) (auto simp: cycle_of_def dest: find_changes_later)
    have "last (w_reviewCycles w) \<in> set (w_reviewCycles w)" using ne by simp
    then obtain r where r: "r \<in> set rs" "ms (submitted_at r) < ms t'"
      using inv t' by blast
    have rs_ne: "rs \<noteq> []" using r(1) by auto
    then have srt_ne: "srt \<noteq> []" unfolding srt_def by (metis length_sort length_0_conv)
    have base_w: "baseTime_comments_fixed pr (w_stages w) = submitted_at (hd srt)"
      using rs_ne unfolding w_def srt_def
      by (simp add: the_walk_stages baseTime_comments_fixed_def find_stage_def)
    obtain ys where ys: "stages t = w_stages w @ ys"
      unfolding t_def w_def using stages_prefix by blast
    have base_t: "baseTime_comments_fixed pr (stages t) = submitted_at (hd srt)"
      using rs_ne unfolding ys unfolding w_def srt_def
      by (simp add: the_walk_stages baseTime_comments_fixed_def find_stage_def)
    have "ms (submitted_at (hd srt)) \<le> ms (submitted_at r)"
      unfolding srt_def using r(1) by (rule sorted_hd_le)
    then have lt: "ms (submitted_at (hd srt)) < ms t'" using r(2) by simp
    show ?thesis using srt_ne base_t lt by (simp add: s_eq base_w)
  qed
  show ?thesis
    unfolding Let_def srt_def [symmetric] t_def [symmetric]
    using goal by blast
qed

theorem comments_fixed_anchor_earlier_witness:
  "scenario_B_stages ! 2 \<in> set scenario_B_stages \<and>
   stage (scenario_B_stages ! 2) = comments_fixed \<and>
   hd (sort_key (\<lambda>r. ms (submitted_at r)) scenario_B_reviews) =
     mk_review 1 State_changes_requested (jan 2) \<and>
   duration_from_previous (scenario_B_stages ! 2) =
     Some (calculateDaysDiff (jan 2) (timestamp (scenario_B_stages ! 2))) \<and>
   ms (jan 2) < ms (timestamp (scenario_B_stages ! 2))"
proof -
  have a: "scenario_B_stages ! 2 \<in> set scenario_B_stages"
    "stage (scenario_B_stages ! 2) = comments_fixed"
    by (simp_all add: scenario_B_eval)
  have h: "hd (sort_key (\<lambda>r. ms (submitted_at r)) scenario_B_reviews) =
     mk_review 1 State_changes_requested (jan 2)"
    by (simp add: scenario_B_reviews_def mk_review_def ms_jan)
  have s: "submitted_at (mk_review 1 State_changes_requested (jan 2)) = jan 2"
    by (simp add: mk_review_def)
  show ?thesis
    using comments_fixed_anchor_earlier [of scenario_B_reviews "jan 9" scenario_B_pr "[]"] a
    unfolding Let_def scenario_B_stages_def [symmetric] h s
    by blast
qed


text \<open>
  C9. When \<open>calculateEnhancedPRTimeline\<close> returns, the caller's \<open>prReviews\<close> array
  holds the same reviews in ascending order of \<open>submitted_at\<close>; the array is not left
  as it was: two reviews passed with the later one first come back swapped.
\<close>

theorem prReviews_sorted_in_place:
  "snd (calculateEnhancedPRTimeline now pr rs cs) = sort_key (\<lambda>r. ms (submitted_at r)) rs \<and>
   sorted (map (\<lambda>r. ms (submitted_at r)) (snd (calculateEnhancedPRTimeline now pr rs cs))) \<and>
   mset (snd (calculateEnhancedPRTimeline now pr rs cs)) = mset rs \<and>
   snd (calculateEnhancedPRTimeline (jan 9) scenario_B_pr late_then_early []) =
     rev late_then_early \<and>
   snd (calculateEnhancedPRTimeline (jan 9) scenario_B_pr late_then_early []) \<noteq> late_then_early"
  by (simp add: timeline_fields late_then_early_def mk_review_def ms_jan)


text \<open>
  C10. Every review cycle of the reconstruction whose \<open>changes_addressed_at\<close> is null
  has \<open>duration_days\<close> 0; so where the long-cycle check of the validator changes the
  issues or the confidence, the cycle has a resolution timestamp.
\<close>

theorem unresolved_cycle_zero_duration:
  "\<forall>c \<in> set (review_cycles (fst (calculateEnhancedPRTimeline now pr rs cs))).
     (changes_addressed_at c = None \<longrightarrow> duration_days c = 0) \<and>
     (check_cycle acc c \<noteq> acc \<longrightarrow> changes_addressed_at c \<noteq> None)"
  unfolding timeline_fields the_walk_def Let_def
  by (rule walk_cycles_inv) (auto simp: initial_walk_def cycle_of_def check_cycle_def split: option.splits)

theorem unresolved_cycle_zero_duration_witness:
  "hd (review_cycles unresolved_timeline) \<in> set (review_cycles unresolved_timeline) \<and>
   changes_addressed_at (hd (review_cycles unresolved_timeline)) = None \<and>
   duration_days (hd (review_cycles unresolved_timeline)) = 0 \<and>
   hd (review_cycles slow_fix_timeline) \<in> set (review_cycles slow_fix_timeline) \<and>
   check_cycle ([], 1) (hd (review_cycles slow_fix_timeline)) \<noteq> ([], 1) \<and>
   changes_addressed_at (hd (review_cycles slow_fix_timeline)) \<noteq> None"
proof -
  have a: "hd (review_cycles unresolved_timeline) \<in> set (review_cycles unresolved_timeline)"
    "changes_addressed_at (hd (review_cycles unresolved_timeline)) = None"
    by (simp_all add: unresolved_eval)
  have b: "hd (review_cycles slow_fix_timeline) \<in> set (review_cycles slow_fix_timeline)"
    "check_cycle ([], 1) (hd (review_cycles slow_fix_timeline)) \<noteq> ([], 1)"
    by (simp_all add: slow_fix_eval check_cycle_def)
  show ?thesis
    using unresolved_cycle_zero_duration [of "jan 9" unresolved_pr "[mk_review 1 State_changes_requested (jan 3)]" "[]" "([], 1)"]
      unresolved_cycle_zero_duration [of "jan 25" "mk_pr (jan 1) (jan 20) None Status_open"
        "[mk_review 1 State_changes_requested (jan 2), mk_review 2 State_approved (jan 20)]" "[]" "([], 1)"]
      a b
    unfolding unresolved_timeline_def [symmetric] slow_fix_timeline_def [symmetric]
    by blast
qed


end
